theory Spec2Isabelle
  imports Complex_Main
begin

section \<open>The SoC performance-power-thermal simulator of App.tsx\<close>

text \<open>
  The simulation engine of \<^verbatim>\<open>src/App.tsx\<close> is the body of the interval handler of the
  "main loop" effect together with \<^verbatim>\<open>resetSim\<close>. JavaScript numbers are modelled as
  \<^typ>\<open>real\<close>: arithmetic is exact, so rounding of IEEE doubles, NaN and the infinities
  are outside the model. The P-state index only ever holds integers and is an \<^typ>\<open>int\<close>.
\<close>

subsection \<open>Data\<close>

text \<open>\<^verbatim>\<open>interface SimPoint\<close>; the fields carry the prefix \<open>sp_\<close>.\<close>

record SimPoint =
  sp_t :: real
  sp_power :: real
  sp_temp :: real
  sp_perfMIPS :: real
  sp_energyWh :: real
  sp_battPct :: real
  sp_f :: real
  sp_V :: real

text \<open>\<^verbatim>\<open>type EndReason = "running" | "completed" | "battery" | "overheat" | "reset"\<close>\<close>

datatype EndReason = Running | Completed | Battery | Overheat | Reset

text \<open>The user knobs (the \<^verbatim>\<open>useState\<close> values the engine reads).\<close>

record config =
  workloadMix :: real
  ceffNF :: real
  manualOverride :: bool
  freqGHz :: real
  vdd :: real
  ambient :: real
  thermalLimit :: real
  overheatGrace :: real
  batteryWh :: real
  workloadGI :: real
  speed :: real
  tauSec :: real

text \<open>The mutable refs of the loop (\<^verbatim>\<open>useRef\<close>).\<close>

record sim_refs =
  T_ref :: real
  EWh_ref :: real
  t_ref :: real
  overheatAccum_ref :: real
  remainingGI_ref :: real
  slewCooldown_ref :: real
  pIndex_ref :: int
  f_ref :: real
  V_ref :: real

text \<open>The simulation state held in React state (\<^verbatim>\<open>useState\<close>).\<close>

record sim_state =
  series :: "SimPoint list"
  endReason :: EndReason
  remainingGI :: real
  throttling :: bool

text \<open>
  The local variables of one run of the interval handler. \<open>remainingGI_set\<close> is the last
  value handed to \<^verbatim>\<open>setRemainingGI\<close> in this run, if any.
\<close>

record tick_locals =
  localEnd :: "EndReason option"
  localThrottling :: bool
  newPoints :: "SimPoint list"
  remainingGI_set :: "real option"

text \<open>
  What the model cannot continue from: \<open>TypeError\<close> is JavaScript's error on reading
  \<^verbatim>\<open>.f\<close> of \<^verbatim>\<open>undefined\<close> (a P-state index outside the table); \<open>NonFinite\<close> marks
  the division by a zero battery capacity, whose result (NaN or an infinity) is not a
  real number.
\<close>

datatype fault = TypeError | NonFinite

subsection \<open>Numeric helpers\<close>

text \<open>\<^verbatim>\<open>const clamp = (x, lo, hi) => Math.max(lo, Math.min(hi, x))\<close>\<close>

definition clamp :: "'a::linorder \<Rightarrow> 'a \<Rightarrow> 'a \<Rightarrow> 'a" where
  "clamp x lo hi = max lo (min hi x)"

text \<open>\<^verbatim>\<open>Math.round\<close>: the nearest integer, a tie going up.\<close>

definition js_round :: "real \<Rightarrow> int" where
  "js_round x = \<lfloor>x + 1 / 2\<rfloor>"

text \<open>
  \<^verbatim>\<open>+x.toFixed(d)\<close>: the decimal with \<open>d\<close> fraction digits nearest to \<open>x\<close> (of two
  equally near ones the larger in magnitude), read back as a number. From \<open>10^21\<close> on
  \<^verbatim>\<open>toFixed\<close> prints the number itself.
\<close>

definition toFixed :: "nat \<Rightarrow> real \<Rightarrow> real" where
  "toFixed d x =
     (if \<bar>x\<bar> \<ge> 10 ^ 21 then x
      else if x < 0 then - (of_int \<lfloor>(- x) * 10 ^ d + 1 / 2\<rfloor> / 10 ^ d)
      else of_int \<lfloor>x * 10 ^ d + 1 / 2\<rfloor> / 10 ^ d)"

subsection \<open>Fixed model parameters\<close>

definition Rth :: real where "Rth = 8.0"

definition P_Pleak0 :: real where "P_Pleak0 = 0.6"
definition P_kV :: real where "P_kV = 2.0"
definition P_gamma :: real where "P_gamma = 0.04"
definition P_IPCmin :: real where "P_IPCmin = 0.5"
definition P_IPCmax :: real where "P_IPCmax = 2.0"
definition P_dt :: real where "P_dt = 0.25"
definition P_fMin :: real where "P_fMin = 0.6"
definition P_fMax :: real where "P_fMax = 3.5"
definition P_vMin :: real where "P_vMin = 0.6"
definition P_vMax :: real where "P_vMax = 1.1"
definition P_slewStepSec :: real where "P_slewStepSec = 0.3"

text \<open>\<^verbatim>\<open>P.pstates\<close>, each entry as the pair \<open>(f, V)\<close>.\<close>

definition P_pstates :: "(real \<times> real) list" where
  "P_pstates =
     [(3.0, 1.05), (2.6, 0.98), (2.2, 0.92), (1.8, 0.86), (1.4, 0.80), (1.0, 0.74), (0.8, 0.70)]"

text \<open>\<^verbatim>\<open>P.pstates[i]\<close>: \<open>None\<close> stands for \<^verbatim>\<open>undefined\<close>.\<close>

definition pstate_at :: "int \<Rightarrow> (real \<times> real) option" where
  "pstate_at i = (if 0 \<le> i \<and> i < int (length P_pstates) then Some (P_pstates ! nat i) else None)"

text \<open>Derived from the workload mix.\<close>

definition alpha :: "config \<Rightarrow> real" where
  "alpha cfg = 0.5 + 0.5 * workloadMix cfg"

definition ipc :: "config \<Rightarrow> real" where
  "ipc cfg = P_IPCmin + (P_IPCmax - P_IPCmin) * workloadMix cfg"

definition targetPIndex :: "config \<Rightarrow> int" where
  "targetPIndex cfg =
     (let n = int (length P_pstates);
          idx = js_round ((1 - workloadMix cfg) * of_int (n - 1))
      in clamp idx 0 (n - 1))"

subsection \<open>Reset\<close>

text \<open>\<^verbatim>\<open>resetSim\<close> writes every ref and every piece of simulation state.\<close>

definition resetSim_refs :: "config \<Rightarrow> sim_refs" where
  "resetSim_refs cfg =
     \<lparr> T_ref = ambient cfg, EWh_ref = 0, t_ref = 0, overheatAccum_ref = 0,
       remainingGI_ref = workloadGI cfg, slewCooldown_ref = 0,
       pIndex_ref = 2, f_ref = fst (P_pstates ! 2), V_ref = snd (P_pstates ! 2) \<rparr>"

definition resetSim_state :: "config \<Rightarrow> sim_state" where
  "resetSim_state cfg =
     \<lparr> series = [], endReason = Running, remainingGI = workloadGI cfg, throttling = False \<rparr>"

definition resetSim :: "config \<Rightarrow> sim_refs \<times> sim_state" where
  "resetSim cfg = (resetSim_refs cfg, resetSim_state cfg)"

subsection \<open>One sub-step: the body of the while loop\<close>

text \<open>The slew cooldown runs down by the sub-step size (line 130).\<close>

definition cooldown_tick :: "real \<Rightarrow> real \<Rightarrow> real" where
  "cooldown_tick c h = (if c > 0 then max 0 (c - h) else c)"

text \<open>\<^verbatim>\<open>battPctNow\<close> and \<^verbatim>\<open>battPct\<close> (lines 139 and 181), for a non-zero capacity.\<close>

definition battPct_of :: "config \<Rightarrow> real \<Rightarrow> real" where
  "battPct_of cfg e = max 0 (100 * (1 - e / batteryWh cfg))"

text \<open>
  The desired index of the automatic governor and the flag \<^verbatim>\<open>thermalTriggered\<close>
  (lines 132 to 140), from the temperature, the energy and the index before the sub-step.
\<close>

definition desired_index :: "config \<Rightarrow> sim_refs \<Rightarrow> int \<times> bool" where
  "desired_index cfg r =
     (let HYST = 2.0;
          cur = pIndex_ref r;
          (desired, thermalTriggered) =
            (if T_ref r \<ge> thermalLimit cfg
               then (min (cur + 1) (int (length P_pstates) - 1), True)
             else if T_ref r > thermalLimit cfg - HYST
               then (max cur (targetPIndex cfg), False)
             else (targetPIndex cfg, False));
          battPctNow = battPct_of cfg (EWh_ref r)
      in (if battPctNow < 20 then max desired 3 else desired, thermalTriggered))"

text \<open>
  The governor (lines 128 to 155). In automatic mode the index moves one entry towards
  the desired one when the cooldown has run out; with manual override the operating point
  is the clamped user setting.
\<close>

definition governor :: "config \<Rightarrow> real \<Rightarrow> sim_refs \<Rightarrow> fault + sim_refs \<times> bool" where
  "governor cfg h r =
     (if \<not> manualOverride cfg then
        (let r1 = r\<lparr>slewCooldown_ref := cooldown_tick (slewCooldown_ref r) h\<rparr>;
             cur = pIndex_ref r1;
             (desired, thermalTriggered) = desired_index cfg r1
         in if slewCooldown_ref r1 = 0 then
              (let idx = (if desired < cur then cur - 1
                          else if desired > cur then cur + 1 else cur)
               in if idx \<noteq> cur then
                    (case pstate_at idx of
                       None \<Rightarrow> Inl TypeError
                     | Some (f, V) \<Rightarrow>
                         Inr (r1\<lparr>pIndex_ref := idx, f_ref := f, V_ref := V,
                                 slewCooldown_ref := P_slewStepSec\<rparr>, thermalTriggered))
                  else Inr (r1, thermalTriggered))
            else Inr (r1, thermalTriggered))
      else
        Inr (r\<lparr>f_ref := clamp (freqGHz cfg) P_fMin P_fMax,
                V_ref := clamp (vdd cfg) P_vMin P_vMax\<rparr>, False))"

text \<open>Performance and power (lines 158 to 165) for an operating point and a temperature.\<close>

definition perfGIPS_of :: "config \<Rightarrow> real \<Rightarrow> real" where
  "perfGIPS_of cfg f = max 0 (ipc cfg * f)"

definition Pdyn_of :: "config \<Rightarrow> real \<Rightarrow> real \<Rightarrow> real" where
  "Pdyn_of cfg f V = ceffNF cfg * V * V * f * alpha cfg"

definition Pleak_of :: "real \<Rightarrow> real \<Rightarrow> real" where
  "Pleak_of V T = P_Pleak0 * exp (P_kV * (V - 0.8)) * exp (P_gamma * (T - 25))"

definition Ptot_of :: "config \<Rightarrow> real \<Rightarrow> real \<Rightarrow> real \<Rightarrow> real" where
  "Ptot_of cfg f V T = Pdyn_of cfg f V + Pleak_of V T"

text \<open>The time constant of the thermal update (lines 174 and 175).\<close>

definition tau_of :: "config \<Rightarrow> real" where
  "tau_of cfg = (let Cth = max (1 / 10 ^ 6) (tauSec cfg / max (1 / 10 ^ 6) Rth) in Rth * Cth)"

text \<open>
  Lines 157 to 199: what follows the governor, ending with the recorded point. The
  arguments are the refs after the governor.
\<close>

definition physics :: "config \<Rightarrow> real \<Rightarrow> sim_refs \<Rightarrow> sim_refs \<times> SimPoint" where
  "physics cfg h r =
     (let perfGIPS = perfGIPS_of cfg (f_ref r);
          perfMIPS = perfGIPS * 1000;
          Ptot = Ptot_of cfg (f_ref r) (V_ref r) (T_ref r);
          dWorkGI = perfGIPS * h;
          r1 = r\<lparr>remainingGI_ref := max 0 (remainingGI_ref r - dWorkGI)\<rparr>;
          tau = tau_of cfg;
          Tss = ambient cfg + Ptot * Rth;
          r2 = r1\<lparr>T_ref := T_ref r1 + (Tss - T_ref r1) * (1 - exp (- h / tau))\<rparr>;
          r3 = r2\<lparr>EWh_ref := EWh_ref r2 + (Ptot * h) / 3600\<rparr>;
          battPct = battPct_of cfg (EWh_ref r3);
          OVERHEAT_MARGIN = 5;
          r4 = (if T_ref r3 > thermalLimit cfg + OVERHEAT_MARGIN
                  then r3\<lparr>overheatAccum_ref := overheatAccum_ref r3 + h\<rparr>
                else r3\<lparr>overheatAccum_ref := max 0 (overheatAccum_ref r3 - 2 * h)\<rparr>);
          r5 = r4\<lparr>t_ref := t_ref r4 + h\<rparr>
      in (r5,
          \<lparr> sp_t = toFixed 2 (t_ref r5), sp_power = toFixed 3 Ptot,
            sp_temp = toFixed 3 (T_ref r5), sp_perfMIPS = toFixed 1 perfMIPS,
            sp_energyWh = toFixed 5 (EWh_ref r5), sp_battPct = toFixed 2 battPct,
            sp_f = toFixed 2 (f_ref r5), sp_V = toFixed 2 (V_ref r5) \<rparr>))"

text \<open>
  The effect of one loop body on the refs, with the point it pushes and the governor's
  flag. A zero battery capacity is where the model stops.
\<close>

definition substep :: "config \<Rightarrow> real \<Rightarrow> sim_refs \<Rightarrow> fault + sim_refs \<times> SimPoint \<times> bool" where
  "substep cfg h r =
     (if batteryWh cfg = 0 then Inl NonFinite
      else case governor cfg h r of
             Inl e \<Rightarrow> Inl e
           | Inr (rg, thermalTriggered) \<Rightarrow>
               (let (r', p) = physics cfg h rg in Inr (r', p, thermalTriggered)))"

text \<open>
  The three assignments to \<^verbatim>\<open>localEnd\<close> (lines 170, 202 and 203) in the order the body
  makes them; each reads a ref that is final when the first of them runs.
\<close>

definition end_checks :: "config \<Rightarrow> sim_refs \<Rightarrow> EndReason option \<Rightarrow> EndReason option" where
  "end_checks cfg r e =
     (let e1 = (if remainingGI_ref r \<le> 0 then Some Completed else e);
          e2 = (if EWh_ref r \<ge> batteryWh cfg then Some Battery else e1);
          e3 = (if overheatAccum_ref r \<ge> max 1 (overheatGrace cfg) then Some Overheat else e2)
      in e3)"

text \<open>The whole loop body, on the refs and the handler's local variables.\<close>

definition loop_body ::
  "config \<Rightarrow> real \<Rightarrow> sim_refs \<times> tick_locals \<Rightarrow> fault + sim_refs \<times> tick_locals" where
  "loop_body cfg h rl =
     (case substep cfg h (fst rl) of
        Inl e \<Rightarrow> Inl e
      | Inr (r', p, thermalTriggered) \<Rightarrow>
          Inr (r',
               (snd rl)\<lparr> localEnd := end_checks cfg r' (localEnd (snd rl)),
                         localThrottling := (thermalTriggered \<or> T_ref r' \<ge> thermalLimit cfg),
                         newPoints := newPoints (snd rl) @ [p],
                         remainingGI_set :=
                           Some (if remainingGI_ref r' \<le> 0 then 0 else remainingGI_ref r') \<rparr>))"

subsection \<open>The loop and the interval handler\<close>

text \<open>\<^verbatim>\<open>(localEnd ?? endReason) === "running"\<close>\<close>

definition still_running :: "EndReason \<Rightarrow> tick_locals \<Rightarrow> bool" where
  "still_running er l = ((case localEnd l of Some e \<Rightarrow> e | None \<Rightarrow> er) = Running)"

text \<open>
  The while loop of the handler (lines 123 to 204): sub-steps of size
  \<^verbatim>\<open>Math.min(P.dt, vtime)\<close> until the budget is used up or an end reason is set.
\<close>

function advance ::
  "config \<Rightarrow> EndReason \<Rightarrow> real \<Rightarrow> sim_refs \<times> tick_locals \<Rightarrow> fault + sim_refs \<times> tick_locals" where
  "advance cfg er vtime rl =
     (if vtime > 0 \<and> still_running er (snd rl) then
        (case loop_body cfg (min P_dt vtime) rl of
           Inl e \<Rightarrow> Inl e
         | Inr rl' \<Rightarrow> advance cfg er (vtime - min P_dt vtime) rl')
      else Inr rl)"
  by pat_completeness auto
termination
proof (relation "measure (\<lambda>(cfg, er, vtime, rl). nat \<lceil>vtime / P_dt\<rceil>)")
  show "wf (measure (\<lambda>(cfg, er, vtime, rl). nat \<lceil>vtime / P_dt\<rceil>))" by simp
next
  fix cfg :: config and er :: EndReason and vtime :: real
    and rl x2 :: "sim_refs \<times> tick_locals"
  assume a: "0 < vtime \<and> still_running er (snd rl)"
  have "\<lceil>(vtime - min (1 / 4) vtime) * 4\<rceil> < \<lceil>vtime * 4\<rceil>"
  proof (cases "vtime \<le> 1 / 4")
    case True
    then have "\<lceil>(vtime - min (1 / 4) vtime) * 4\<rceil> = 0" by (simp add: min_def)
    moreover have "0 < \<lceil>vtime * 4\<rceil>" using a by simp
    ultimately show ?thesis by simp
  next
    case False
    then have "(vtime - min (1 / 4) vtime) * 4 = vtime * 4 - 1" by (simp add: min_def)
    then show ?thesis by simp
  qed
  moreover have "0 < \<lceil>vtime * 4\<rceil>" using a by simp
  ultimately show "((cfg, er, vtime - min P_dt vtime, x2), (cfg, er, vtime, rl))
      \<in> measure (\<lambda>(cfg, er, vtime, rl). nat \<lceil>vtime / P_dt\<rceil>)"
    by (simp add: P_dt_def)
qed

declare advance.simps [simp del]

text \<open>
  One run of the interval handler (lines 117 to 214) while playing: the budget is a tenth
  of a second times the clamped speed; afterwards the new points are appended to the
  trimmed series and the throttling flag and the end reason are committed.
\<close>

definition tick :: "config \<Rightarrow> sim_refs \<times> sim_state \<Rightarrow> fault + sim_refs \<times> sim_state" where
  "tick cfg rs =
     (let tickMs = 100; maxSpeed = 50;
          vtime = (tickMs / 1000) * clamp (speed cfg) 1 maxSpeed;
          s = snd rs;
          l0 = \<lparr> localEnd = None, localThrottling = throttling s, newPoints = [],
                 remainingGI_set = None \<rparr>
      in case advance cfg (endReason s) vtime (fst rs, l0) of
           Inl e \<Rightarrow> Inl e
         | Inr (r', l) \<Rightarrow>
             (let s1 = (case remainingGI_set l of None \<Rightarrow> s | Some g \<Rightarrow> s\<lparr>remainingGI := g\<rparr>);
                  s2 = (if newPoints l \<noteq> []
                          then s1\<lparr>series :=
                                 (if length (series s1) > 3000
                                    then drop (length (series s1) - 1500) (series s1)
                                  else series s1) @ newPoints l\<rparr>
                        else s1);
                  s3 = (if localThrottling l \<noteq> throttling s
                          then s2\<lparr>throttling := localThrottling l\<rparr> else s2);
                  s4 = (case localEnd l of
                          Some e \<Rightarrow> (if endReason s = Running then s3\<lparr>endReason := e\<rparr> else s3)
                        | None \<Rightarrow> s3)
              in Inr (r', s4)))"

text \<open>
  The effect of lines 102 to 104, run after a render in which \<^verbatim>\<open>workloadGI\<close> or
  \<^verbatim>\<open>playing\<close> has changed (so also when Pause turns \<^verbatim>\<open>playing\<close> off): while not
  playing it sets the remaining workload back to the configured one. Nothing else is
  touched, the time, the energy and the temperature go on.
\<close>

definition reseed_effect :: "bool \<Rightarrow> config \<Rightarrow> sim_refs \<times> sim_state \<Rightarrow> sim_refs \<times> sim_state" where
  "reseed_effect playing cfg rs =
     (if \<not> playing
        then ((fst rs)\<lparr>remainingGI_ref := workloadGI cfg\<rparr>, (snd rs)\<lparr>remainingGI := workloadGI cfg\<rparr>)
      else rs)"

text \<open>
  A run of sub-steps on the refs: each with the configuration in force and its size, as
  successive handler runs execute them.
\<close>

fun substeps :: "(config \<times> real) list \<Rightarrow> sim_refs \<Rightarrow> fault + sim_refs" where
  "substeps [] r = Inr r"
| "substeps ((cfg, h) # xs) r =
     (case substep cfg h r of Inl e \<Rightarrow> Inl e | Inr (r', p, tt) \<Rightarrow> substeps xs r')"

subsection \<open>Well-formed states and concrete inputs\<close>

text \<open>The P-state index points into the table.\<close>

definition index_ok :: "sim_refs \<Rightarrow> bool" where
  "index_ok r = (0 \<le> pIndex_ref r \<and> pIndex_ref r < int (length P_pstates))"

text \<open>The initial values of the user knobs (the arguments of \<^verbatim>\<open>useState\<close>).\<close>

definition cfg0 :: config where
  "cfg0 = \<lparr> workloadMix = 0.9, ceffNF = 1.2, manualOverride = False, freqGHz = 2.2, vdd = 0.9,
            ambient = 25, thermalLimit = 42, overheatGrace = 5, batteryWh = 0.75,
            workloadGI = 1000, speed = 75, tauSec = 60 \<rparr>"

text \<open>Manual override at 1.0 GHz and 0.8 V, everything else as initially.\<close>

definition cfgM :: config where
  "cfgM = cfg0\<lparr>manualOverride := True, freqGHz := 1.0, vdd := 0.8\<rparr>"

text \<open>The handler's local variables as a run of it starts (throttling off).\<close>

definition l0 :: tick_locals where
  "l0 = \<lparr> localEnd = None, localThrottling = False, newPoints = [], remainingGI_set = None \<rparr>"

text \<open>
  Manual override at 1.0 GHz and 0.8 V with a battery of 0.00005 Wh and a workload of 0.1
  billion instructions: the first sub-step after a reset exhausts both.
\<close>

definition cfgB :: config where
  "cfgB = cfgM\<lparr>batteryWh := 0.00005, workloadGI := 0.1\<rparr>"

text \<open>A simulation state that has ended.\<close>

definition sB :: sim_state where
  "sB = \<lparr> series = [], endReason = Battery, remainingGI = 0, throttling = False \<rparr>"

text \<open>The refs after the governor and the result of the first sub-step under \<open>cfgB\<close>.\<close>

definition rgB :: sim_refs where
  "rgB = (resetSim_refs cfgB)\<lparr>f_ref := 1, V_ref := 0.8\<rparr>"

definition rlB :: "sim_refs \<times> tick_locals" where
  "rlB = projr (loop_body cfgB (1 / 4) (resetSim_refs cfgB, l0))"

text \<open>
  The slew invariant relative to the time \<open>t0\<close> of an index change: the time still to
  pass plus the cooldown still to run cover the slew window.
\<close>

definition slew_inv :: "real \<Rightarrow> sim_refs \<Rightarrow> bool" where
  "slew_inv t0 r = (t0 + P_slewStepSec \<le> t_ref r + slewCooldown_ref r)"

text \<open>The state after a reset with the temperature forced to the thermal limit of 42.\<close>

definition r42 :: sim_refs where
  "r42 = (resetSim_refs cfg0)\<lparr>T_ref := 42\<rparr>"

text \<open>The same at the last table entry, 0.8 GHz and 0.70 V.\<close>

definition r6 :: sim_refs where
  "r6 = \<lparr> T_ref = 42, EWh_ref = 0, t_ref = 0, overheatAccum_ref = 0, remainingGI_ref = 1000,
          slewCooldown_ref = 0, pIndex_ref = 6, f_ref = 0.8, V_ref = 0.70 \<rparr>"

text \<open>
  A thermal limit of 20 below the ambient of 25, so that every automatic decision is
  thermally triggered, and the refs after the first three sub-steps from a reset.
\<close>

definition cfgT :: config where
  "cfgT = cfg0\<lparr>thermalLimit := 20\<rparr>"

definition rW1 :: sim_refs where
  "rW1 = projr (substeps [(cfgT, 1 / 4)] (resetSim_refs cfgT))"

definition rW2 :: sim_refs where
  "rW2 = projr (substeps [(cfgT, 1 / 4)] rW1)"

definition rW3 :: sim_refs where
  "rW3 = projr (substeps [(cfgT, 1 / 4)] rW2)"

text \<open>
  An ambient of 100, far above the thermal limit plus margin, with a configured grace of
  half a second; the state after a reset with the accumulator advanced to 0.75 s.
\<close>

definition cfgH :: config where
  "cfgH = cfg0\<lparr>ambient := 100, overheatGrace := 1 / 2\<rparr>"

definition rH :: sim_refs where
  "rH = (resetSim_refs cfgH)\<lparr>overheatAccum_ref := 3 / 4\<rparr>"

text \<open>
  A negative configured workload, which the number field accepts; and manual override at
  playback speed 1, where one handler run is one sub-step of a tenth of a second, with
  the refs after the governor in that sub-step.
\<close>

definition cfgN :: config where
  "cfgN = cfg0\<lparr>workloadGI := - 5\<rparr>"

definition cfgP :: config where
  "cfgP = cfgM\<lparr>speed := 1\<rparr>"

definition rgP :: sim_refs where
  "rgP = (resetSim_refs cfgP)\<lparr>f_ref := 1, V_ref := 0.8\<rparr>"

section \<open>Basic facts\<close>

subsection \<open>The table and the governor\<close>

lemma length_P_pstates: "length P_pstates = 7"
  by (simp add: P_pstates_def)

lemma targetPIndex_range: "0 \<le> targetPIndex cfg \<and> targetPIndex cfg \<le> 6"
  by (simp add: targetPIndex_def clamp_def length_P_pstates Let_def)

lemma desired_index_range:
  "index_ok r \<Longrightarrow> 0 \<le> fst (desired_index cfg r) \<and> fst (desired_index cfg r) \<le> 6"
  using targetPIndex_range [of cfg]
  by (auto simp add: desired_index_def index_ok_def length_P_pstates Let_def split: if_splits)

lemma pstate_at_Some: "0 \<le> i \<Longrightarrow> i \<le> 6 \<Longrightarrow> \<exists>f V. pstate_at i = Some (f, V)"
  by (simp add: pstate_at_def length_P_pstates)

lemma governor_manual:
  "manualOverride cfg \<Longrightarrow> governor cfg h r =
     Inr (r\<lparr>f_ref := clamp (freqGHz cfg) P_fMin P_fMax, V_ref := clamp (vdd cfg) P_vMin P_vMax\<rparr>, False)"
  by (simp add: governor_def)

lemma governor_total:
  assumes "index_ok r"
  shows "\<exists>rg tt. governor cfg h r = Inr (rg, tt)"
proof (cases "manualOverride cfg")
  case True then show ?thesis by (auto simp add: governor_manual)
next
  case False
  let ?r1 = "r\<lparr>slewCooldown_ref := cooldown_tick (slewCooldown_ref r) h\<rparr>"
  have ok1: "index_ok ?r1" using assms by (simp add: index_ok_def)
  obtain d tt where d: "desired_index cfg ?r1 = (d, tt)" by (cases "desired_index cfg ?r1")
  have dr: "0 \<le> d \<and> d \<le> 6" using desired_index_range [OF ok1, of cfg] d by simp
  have cur: "0 \<le> pIndex_ref r \<and> pIndex_ref r \<le> 6"
    using assms by (simp add: index_ok_def length_P_pstates)
  show ?thesis
  proof (cases "d < pIndex_ref r")
    case True
    with dr cur obtain f V where "pstate_at (pIndex_ref r - 1) = Some (f, V)"
      using pstate_at_Some [of "pIndex_ref r - 1"] by auto
    with True False d show ?thesis by (simp add: governor_def Let_def)
  next
    case nlt: False
    show ?thesis
    proof (cases "d > pIndex_ref r")
      case True
      with dr cur obtain f V where "pstate_at (pIndex_ref r + 1) = Some (f, V)"
        using pstate_at_Some [of "pIndex_ref r + 1"] by auto
      with True nlt False d show ?thesis by (simp add: governor_def Let_def)
    next
      case False
      with nlt \<open>\<not> manualOverride cfg\<close> d show ?thesis by (simp add: governor_def Let_def)
    qed
  qed
qed

lemma governor_keeps:
  "governor cfg h r = Inr (rg, tt) \<Longrightarrow>
     T_ref rg = T_ref r \<and> EWh_ref rg = EWh_ref r \<and> t_ref rg = t_ref r \<and>
     overheatAccum_ref rg = overheatAccum_ref r \<and> remainingGI_ref rg = remainingGI_ref r"
  by (auto simp add: governor_def Let_def split: if_splits prod.splits option.splits)

lemma substep_Inr_iff:
  "substep cfg h r = Inr (r', p, tt) \<longleftrightarrow>
     batteryWh cfg \<noteq> 0 \<and> (\<exists>rg. governor cfg h r = Inr (rg, tt) \<and> physics cfg h rg = (r', p))"
  by (auto simp add: substep_def split: sum.splits prod.splits)

lemma substep_total:
  "index_ok r \<Longrightarrow> batteryWh cfg \<noteq> 0 \<Longrightarrow> \<exists>r' p tt. substep cfg h r = Inr (r', p, tt)"
  using governor_total [of r cfg h]
  by (auto simp add: substep_def split: sum.splits prod.splits)

lemma physics_keeps:
  "physics cfg h rg = (r', p) \<Longrightarrow>
     f_ref r' = f_ref rg \<and> V_ref r' = V_ref rg \<and> pIndex_ref r' = pIndex_ref rg \<and>
     slewCooldown_ref r' = slewCooldown_ref rg"
  by (auto simp add: physics_def Let_def split: if_splits)

lemma physics_T:
  "physics cfg h rg = (r', p) \<Longrightarrow>
     T_ref r' = T_ref rg + (ambient cfg + Ptot_of cfg (f_ref rg) (V_ref rg) (T_ref rg) * Rth - T_ref rg) * (1 - exp (- h / tau_of cfg))"
  by (auto simp add: physics_def Let_def split: if_splits)

subsection \<open>The thermal update\<close>

lemma tau_of_eq: "tau_of cfg = max (8 / 10 ^ 6) (tauSec cfg)"
  by (simp add: tau_of_def Rth_def Let_def max_def)

lemma exp_gap: "0 \<le> h \<Longrightarrow> 0 < tau \<Longrightarrow> 0 \<le> 1 - exp (- h / tau) \<and> 1 - exp (- h / tau) \<le> (1::real)"
  by (simp add: divide_nonneg_pos)

lemma tau_of_pos: "0 < tau_of cfg"
  by (simp add: tau_of_eq max_def)

lemma between_up:
  fixes T S p :: real
  shows "0 \<le> p \<Longrightarrow> p \<le> S - T \<Longrightarrow> min T S \<le> T + p \<and> T + p \<le> max T S"
  by arith

lemma between_down:
  fixes T S p :: real
  shows "p \<le> 0 \<Longrightarrow> S - T \<le> p \<Longrightarrow> min T S \<le> T + p \<and> T + p \<le> max T S"
  by arith

lemma convex_between:
  fixes T S k :: real
  assumes "0 \<le> k" "k \<le> 1"
  shows "min T S \<le> T + (S - T) * k \<and> T + (S - T) * k \<le> max T S"
proof (cases "T \<le> S")
  case True
  have "0 \<le> (S - T) * k" using True assms(1) by simp
  moreover have "(S - T) * k \<le> S - T"
    using mult_left_mono [of k 1 "S - T"] True assms(2) by simp
  ultimately show ?thesis by (rule between_up)
next
  case False
  have "(S - T) * k \<le> 0" using False assms(1) by (simp add: mult_nonpos_nonneg)
  moreover have "S - T \<le> (S - T) * k"
    using mult_left_mono_neg [of k 1 "S - T"] False assms(2) by simp
  ultimately show ?thesis by (rule between_down)
qed

subsection \<open>The other updates of a sub-step\<close>

lemma physics_remaining:
  "physics cfg h rg = (r', p) \<Longrightarrow>
     remainingGI_ref r' = max 0 (remainingGI_ref rg - perfGIPS_of cfg (f_ref rg) * h)"
  by (auto simp add: physics_def Let_def split: if_splits)

lemma physics_accum:
  "physics cfg h rg = (r', p) \<Longrightarrow>
     overheatAccum_ref r' =
       (if T_ref r' > thermalLimit cfg + 5 then overheatAccum_ref rg + h
        else max 0 (overheatAccum_ref rg - 2 * h))"
  by (auto simp add: physics_def Let_def split: if_splits)

lemma physics_power:
  "physics cfg h rg = (r', p) \<Longrightarrow>
     sp_power p = toFixed 3 (Ptot_of cfg (f_ref rg) (V_ref rg) (T_ref rg))"
  by (auto simp add: physics_def Let_def split: if_splits)

lemma physics_point_fV:
  "physics cfg h rg = (r', p) \<Longrightarrow> sp_f p = toFixed 2 (f_ref rg) \<and> sp_V p = toFixed 2 (V_ref rg)"
  by (auto simp add: physics_def Let_def split: if_splits)

lemma physics_tE:
  "physics cfg h rg = (r', p) \<Longrightarrow>
     t_ref r' = t_ref rg + h \<and>
     EWh_ref r' = EWh_ref rg + Ptot_of cfg (f_ref rg) (V_ref rg) (T_ref rg) * h / 3600"
  by (auto simp add: physics_def Let_def split: if_splits)

lemma substep_manual:
  "manualOverride cfg \<Longrightarrow> batteryWh cfg \<noteq> 0 \<Longrightarrow>
     substep cfg h r =
       Inr (fst (physics cfg h (r\<lparr>f_ref := clamp (freqGHz cfg) P_fMin P_fMax,
                                      V_ref := clamp (vdd cfg) P_vMin P_vMax\<rparr>)),
            snd (physics cfg h (r\<lparr>f_ref := clamp (freqGHz cfg) P_fMin P_fMax,
                                      V_ref := clamp (vdd cfg) P_vMin P_vMax\<rparr>)), False)"
  by (simp add: substep_def governor_manual split_beta)

lemma physics_fst_keeps:
  "f_ref (fst (physics cfg h rg)) = f_ref rg" "V_ref (fst (physics cfg h rg)) = V_ref rg"
  "pIndex_ref (fst (physics cfg h rg)) = pIndex_ref rg"
  "slewCooldown_ref (fst (physics cfg h rg)) = slewCooldown_ref rg"
  using physics_keeps [of cfg h rg "fst (physics cfg h rg)" "snd (physics cfg h rg)"] by simp_all

lemma physics_snd_power:
  "sp_power (snd (physics cfg h rg)) = toFixed 3 (Ptot_of cfg (f_ref rg) (V_ref rg) (T_ref rg))"
  using physics_power [of cfg h rg "fst (physics cfg h rg)" "snd (physics cfg h rg)"] by simp

lemma Ptot_cfgM: "Ptot_of cfgM 1 0.8 25 = 1.3296"
  by (simp add: Ptot_of_def Pdyn_of_def Pleak_of_def cfgM_def cfg0_def alpha_def P_Pleak0_def
      P_kV_def P_gamma_def)

subsection \<open>The loop body, the loop and the handler\<close>

lemma loop_body_Inr_iff:
  "loop_body cfg h (r, l) = Inr (r', l') \<longleftrightarrow>
     (\<exists>p tt. substep cfg h r = Inr (r', p, tt) \<and>
        l' = l\<lparr> localEnd := end_checks cfg r' (localEnd l),
                localThrottling := (tt \<or> T_ref r' \<ge> thermalLimit cfg),
                newPoints := newPoints l @ [p],
                remainingGI_set := Some (if remainingGI_ref r' \<le> 0 then 0 else remainingGI_ref r') \<rparr>)"
  by (auto simp add: loop_body_def split: sum.splits prod.splits)

lemma end_checks_eq:
  "end_checks cfg r e =
     (if overheatAccum_ref r \<ge> max 1 (overheatGrace cfg) then Some Overheat
      else if EWh_ref r \<ge> batteryWh cfg then Some Battery
      else if remainingGI_ref r \<le> 0 then Some Completed
      else e)"
  by (simp add: end_checks_def Let_def)

lemma physics_fst_vals:
  "remainingGI_ref (fst (physics cfg h rg)) = max 0 (remainingGI_ref rg - perfGIPS_of cfg (f_ref rg) * h)"
  "EWh_ref (fst (physics cfg h rg)) = EWh_ref rg + Ptot_of cfg (f_ref rg) (V_ref rg) (T_ref rg) * h / 3600"
  "t_ref (fst (physics cfg h rg)) = t_ref rg + h"
  "overheatAccum_ref (fst (physics cfg h rg)) =
     (if T_ref (fst (physics cfg h rg)) > thermalLimit cfg + 5 then overheatAccum_ref rg + h
      else max 0 (overheatAccum_ref rg - 2 * h))"
  using physics_remaining [of cfg h rg "fst (physics cfg h rg)" "snd (physics cfg h rg)"]
    physics_tE [of cfg h rg "fst (physics cfg h rg)" "snd (physics cfg h rg)"]
    physics_accum [of cfg h rg "fst (physics cfg h rg)" "snd (physics cfg h rg)"]
  by simp_all

lemma loop_body_total:
  assumes "index_ok r" and "batteryWh cfg \<noteq> 0"
  shows "\<exists>r' l'. loop_body cfg h (r, l) = Inr (r', l') \<and>
           localEnd l' = end_checks cfg r' (localEnd l)"
proof -
  obtain r' p tt where s: "substep cfg h r = Inr (r', p, tt)"
    using substep_total [OF assms] by blast
  then show ?thesis by (simp add: loop_body_def)
qed

lemma advance_stops:
  assumes "loop_body cfg (min P_dt vtime) (r, l) = Inr (r', l')" and "0 < vtime"
    and "localEnd l = None" and "localEnd l' \<noteq> None" and "localEnd l' \<noteq> Some Running"
  shows "advance cfg Running vtime (r, l) = Inr (r', l')"
proof -
  have run: "still_running Running l" using assms(3) by (simp add: still_running_def)
  have stop: "\<not> still_running Running l'" using assms(4,5) by (auto simp add: still_running_def)
  have "advance cfg Running vtime (r, l) = advance cfg Running (vtime - min P_dt vtime) (r', l')"
    using assms(1,2) run by (subst advance.simps) simp
  also have "\<dots> = Inr (r', l')" using stop by (subst advance.simps) simp
  finally show ?thesis .
qed

lemma tick_frozen:
  assumes "endReason s \<noteq> Running"
  shows "tick cfg (r, s) = Inr (r, s)"
proof -
  have "advance cfg (endReason s) v (r, l) = Inr (r, l)" if "localEnd l = None" for v l
    using that assms by (subst advance.simps) (simp add: still_running_def)
  then show ?thesis by (simp add: tick_def Let_def)
qed

subsection \<open>The first sub-step under cfgB\<close>

lemma cfgB_manual: "manualOverride cfgB" "batteryWh cfgB \<noteq> 0"
  by (simp_all add: cfgB_def cfgM_def cfg0_def)

lemma substep_cfgB:
  "substep cfgB (1 / 4) (resetSim_refs cfgB) =
     Inr (fst (physics cfgB (1 / 4) rgB), snd (physics cfgB (1 / 4) rgB), False)"
proof -
  have c: "clamp (freqGHz cfgB) P_fMin P_fMax = 1" "clamp (vdd cfgB) P_vMin P_vMax = 0.8"
    by (simp_all add: cfgB_def cfgM_def cfg0_def clamp_def P_fMin_def P_fMax_def P_vMin_def P_vMax_def)
  show ?thesis unfolding substep_manual [OF cfgB_manual] c rgB_def ..
qed

lemma Ptot_cfgB: "Ptot_of cfgB (f_ref rgB) (V_ref rgB) (T_ref rgB) = 1.3296"
  by (simp add: Ptot_of_def Pdyn_of_def Pleak_of_def cfgB_def cfgM_def cfg0_def alpha_def P_Pleak0_def
      P_kV_def P_gamma_def rgB_def resetSim_refs_def)

lemma physics_cfgB:
  "remainingGI_ref (fst (physics cfgB (1 / 4) rgB)) = 0"
  "EWh_ref (fst (physics cfgB (1 / 4) rgB)) = 1.3296 * (1 / 4) / 3600"
  "overheatAccum_ref (fst (physics cfgB (1 / 4) rgB)) < 1"
proof -
  show "remainingGI_ref (fst (physics cfgB (1 / 4) rgB)) = 0"
    by (simp add: physics_fst_vals perfGIPS_of_def ipc_def P_IPCmin_def P_IPCmax_def rgB_def
        resetSim_refs_def cfgB_def cfgM_def cfg0_def)
  show "EWh_ref (fst (physics cfgB (1 / 4) rgB)) = 1.3296 * (1 / 4) / 3600"
    unfolding physics_fst_vals Ptot_cfgB by (simp add: rgB_def resetSim_refs_def)
  show "overheatAccum_ref (fst (physics cfgB (1 / 4) rgB)) < 1"
    by (subst physics_fst_vals) (simp add: rgB_def resetSim_refs_def)
qed

lemma loop_body_cfgB:
  "loop_body cfgB (1 / 4) (resetSim_refs cfgB, l0) = Inr rlB"
  "fst rlB = fst (physics cfgB (1 / 4) rgB)"
  "localEnd (snd rlB) = Some Battery"
proof -
  have ec: "end_checks cfgB (fst (physics cfgB (1 / 4) rgB)) None = Some Battery"
    using physics_cfgB(3)
    by (simp add: end_checks_eq physics_cfgB(1,2)) (simp add: cfgB_def cfgM_def cfg0_def)
  show "loop_body cfgB (1 / 4) (resetSim_refs cfgB, l0) = Inr rlB"
    by (simp add: rlB_def loop_body_def substep_cfgB)
  show "fst rlB = fst (physics cfgB (1 / 4) rgB)"
    by (simp add: rlB_def loop_body_def substep_cfgB)
  show "localEnd (snd rlB) = Some Battery"
    using ec by (simp add: rlB_def loop_body_def substep_cfgB l0_def)
qed

lemma tick_cfgB:
  "\<not> isl (tick cfgB (resetSim cfgB))"
  "fst (projr (tick cfgB (resetSim cfgB))) = fst rlB"
  "endReason (snd (projr (tick cfgB (resetSim cfgB)))) = Battery"
proof -
  have v: "(100 / 1000) * clamp (speed cfgB) 1 50 = (5::real)"
    by (simp add: clamp_def cfgB_def cfgM_def cfg0_def)
  have l: "\<lparr> localEnd = None, localThrottling = throttling (snd (resetSim cfgB)), newPoints = [],
             remainingGI_set = None \<rparr> = l0"
    by (simp add: l0_def resetSim_def resetSim_state_def)
  have lb: "loop_body cfgB (min P_dt 5) (resetSim_refs cfgB, l0) = Inr (fst rlB, snd rlB)"
    using loop_body_cfgB(1) by (simp add: P_dt_def)
  have adv: "advance cfgB (endReason (snd (resetSim cfgB))) 5 (fst (resetSim cfgB), l0)
               = Inr (fst rlB, snd rlB)"
    using advance_stops [OF lb] by (simp add: l0_def loop_body_cfgB(3) resetSim_def resetSim_state_def)
  have er: "endReason (snd (resetSim cfgB)) = Running" by (simp add: resetSim_def resetSim_state_def)
  show "\<not> isl (tick cfgB (resetSim cfgB))"
    unfolding tick_def Let_def v l adv by (simp add: case_prod_beta)
  show "fst (projr (tick cfgB (resetSim cfgB))) = fst rlB"
    unfolding tick_def Let_def v l adv by (simp add: case_prod_beta)
  show "endReason (snd (projr (tick cfgB (resetSim cfgB)))) = Battery"
    unfolding tick_def Let_def v l adv by (simp add: case_prod_beta loop_body_cfgB(3) er)
qed

subsection \<open>The automatic governor and the slew window\<close>

lemma desired_index_cooldown:
  "desired_index cfg (r\<lparr>slewCooldown_ref := c\<rparr>) = desired_index cfg r"
  by (simp add: desired_index_def Let_def)

lemma desired_index_thermal:
  assumes "T_ref r \<ge> thermalLimit cfg"
  shows "desired_index cfg r =
           (if battPct_of cfg (EWh_ref r) < 20 then max (min (pIndex_ref r + 1) 6) 3
            else min (pIndex_ref r + 1) 6, True)"
  using assms by (simp add: desired_index_def Let_def length_P_pstates)

text \<open>The automatic governor, by cases.\<close>

lemma governor_auto:
  assumes "\<not> manualOverride cfg" and "governor cfg h r = Inr (rg, tt)"
  shows "tt = snd (desired_index cfg r) \<and>
         (if cooldown_tick (slewCooldown_ref r) h = 0 \<and> fst (desired_index cfg r) \<noteq> pIndex_ref r
          then pIndex_ref rg =
                 (if fst (desired_index cfg r) < pIndex_ref r then pIndex_ref r - 1
                  else pIndex_ref r + 1) \<and>
               slewCooldown_ref rg = P_slewStepSec \<and>
               pstate_at (pIndex_ref rg) = Some (f_ref rg, V_ref rg)
          else pIndex_ref rg = pIndex_ref r \<and>
               slewCooldown_ref rg = cooldown_tick (slewCooldown_ref r) h \<and>
               f_ref rg = f_ref r \<and> V_ref rg = V_ref r)"
proof -
  obtain d t where d: "desired_index cfg r = (d, t)" by (cases "desired_index cfg r")
  show ?thesis
    using assms d
    by (auto simp add: governor_def Let_def desired_index_cooldown
        split: if_splits option.splits prod.splits)
qed

lemma governor_change:
  assumes "governor cfg h r = Inr (rg, tt)" and "pIndex_ref rg \<noteq> pIndex_ref r"
  shows "\<not> manualOverride cfg \<and> cooldown_tick (slewCooldown_ref r) h = 0 \<and>
         \<bar>pIndex_ref rg - pIndex_ref r\<bar> = 1 \<and> slewCooldown_ref rg = P_slewStepSec \<and>
         pstate_at (pIndex_ref rg) = Some (f_ref rg, V_ref rg)"
proof -
  have auto_mode: "\<not> manualOverride cfg"
    using assms by (auto simp add: governor_manual)
  show ?thesis
    using governor_auto [OF auto_mode assms(1)] assms(2) auto_mode
    by (auto split: if_splits)
qed

lemma governor_same:
  assumes "governor cfg h r = Inr (rg, tt)" and "pIndex_ref rg = pIndex_ref r"
  shows "slewCooldown_ref rg =
           (if manualOverride cfg then slewCooldown_ref r
            else cooldown_tick (slewCooldown_ref r) h)"
proof (cases "manualOverride cfg")
  case True
  then show ?thesis using assms by (auto simp add: governor_manual)
next
  case False
  then show ?thesis
    using governor_auto [OF False assms(1)] assms(2) by (auto split: if_splits)
qed

lemma cooldown_tick_ge: "0 \<le> h \<Longrightarrow> c - h \<le> cooldown_tick c h"
  by (simp add: cooldown_tick_def)

lemma substep_parts:
  assumes "substep cfg h r = Inr (r', p, tt)"
  obtains rg where "governor cfg h r = Inr (rg, tt)" and "physics cfg h rg = (r', p)"
    and "pIndex_ref r' = pIndex_ref rg" and "slewCooldown_ref r' = slewCooldown_ref rg"
    and "f_ref r' = f_ref rg" and "V_ref r' = V_ref rg"
    and "t_ref r' = t_ref r + h"
proof -
  from assms obtain rg where g: "governor cfg h r = Inr (rg, tt)"
    and ph: "physics cfg h rg = (r', p)"
    by (auto simp add: substep_Inr_iff)
  show thesis
    using that [OF g ph] physics_keeps [OF ph] physics_tE [OF ph] governor_keeps [OF g]
    by simp
qed

lemma slew_inv_substep:
  assumes s: "substep cfg h r = Inr (r', p, tt)" and h: "0 \<le> h" and inv: "slew_inv t0 r"
  shows "slew_inv t0 r' \<and> (pIndex_ref r' \<noteq> pIndex_ref r \<longrightarrow> t0 + P_slewStepSec \<le> t_ref r')"
proof -
  from s obtain rg where g: "governor cfg h r = Inr (rg, tt)"
    and pi: "pIndex_ref r' = pIndex_ref rg" and cd: "slewCooldown_ref r' = slewCooldown_ref rg"
    and t: "t_ref r' = t_ref r + h"
    by (rule substep_parts)
  show ?thesis
  proof (cases "pIndex_ref rg = pIndex_ref r")
    case True
    have "slewCooldown_ref r - h \<le> slewCooldown_ref rg"
      using governor_same [OF g True] cooldown_tick_ge [OF h, of "slewCooldown_ref r"] h
      by (simp split: if_splits)
    then show ?thesis using inv True pi cd t by (simp add: slew_inv_def)
  next
    case False
    have c0: "cooldown_tick (slewCooldown_ref r) h = 0" and c1: "slewCooldown_ref rg = P_slewStepSec"
      using governor_change [OF g False] by simp_all
    have "slewCooldown_ref r \<le> h"
      using cooldown_tick_ge [OF h, of "slewCooldown_ref r"] c0 by simp
    then have "t0 + P_slewStepSec \<le> t_ref r'" using inv t by (simp add: slew_inv_def)
    then show ?thesis using cd c1 by (simp add: slew_inv_def P_slewStepSec_def)
  qed
qed

lemma slew_inv_substeps:
  "substeps xs r = Inr r' \<Longrightarrow> \<forall>x\<in>set xs. 0 \<le> snd x \<Longrightarrow> slew_inv t0 r \<Longrightarrow> slew_inv t0 r'"
proof (induction xs arbitrary: r)
  case Nil
  then show ?case by simp
next
  case (Cons x xs)
  obtain cfg h where x: "x = (cfg, h)" by (cases x)
  from Cons.prems(1) x obtain r1 p tt where s: "substep cfg h r = Inr (r1, p, tt)"
    and rest: "substeps xs r1 = Inr r'"
    by (auto split: sum.splits)
  have "slew_inv t0 r1" using slew_inv_substep [OF s _ Cons.prems(3)] Cons.prems(2) x by simp
  then show ?case using Cons.IH [OF rest] Cons.prems(2) by simp
qed

lemma substeps_single:
  "substeps [(cfg, h)] r = Inr r' \<longleftrightarrow> (\<exists>p tt. substep cfg h r = Inr (r', p, tt))"
  by (auto split: sum.splits)

lemma desired_index_thermal_ge:
  assumes "T_ref r \<ge> thermalLimit cfg"
  shows "snd (desired_index cfg r) \<and>
         min (pIndex_ref r + 1) (int (length P_pstates) - 1) \<le> fst (desired_index cfg r)"
  using assms by (simp add: desired_index_thermal length_P_pstates)

lemma substep_auto:
  assumes "\<not> manualOverride cfg" and "batteryWh cfg \<noteq> 0" and "index_ok r"
  shows "\<exists>r' p. substep cfg h r = Inr (r', p, snd (desired_index cfg r)) \<and>
           t_ref r' = t_ref r + h \<and>
           (if cooldown_tick (slewCooldown_ref r) h = 0 \<and> fst (desired_index cfg r) \<noteq> pIndex_ref r
            then pIndex_ref r' =
                   (if fst (desired_index cfg r) < pIndex_ref r then pIndex_ref r - 1
                    else pIndex_ref r + 1) \<and>
                 slewCooldown_ref r' = P_slewStepSec \<and>
                 pstate_at (pIndex_ref r') = Some (f_ref r', V_ref r')
            else pIndex_ref r' = pIndex_ref r \<and>
                 slewCooldown_ref r' = cooldown_tick (slewCooldown_ref r) h \<and>
                 f_ref r' = f_ref r \<and> V_ref r' = V_ref r)"
proof -
  obtain r' p tt where s: "substep cfg h r = Inr (r', p, tt)"
    using substep_total [OF assms(3,2)] by blast
  from s obtain rg where g: "governor cfg h r = Inr (rg, tt)"
    and k: "pIndex_ref r' = pIndex_ref rg" "slewCooldown_ref r' = slewCooldown_ref rg"
      "f_ref r' = f_ref rg" "V_ref r' = V_ref rg" "t_ref r' = t_ref r + h"
    by (rule substep_parts)
  show ?thesis
    using governor_auto [OF assms(1) g] s k by (auto split: if_splits)
qed

subsection \<open>A floor for the temperature\<close>

lemma Ptot_nonneg:
  assumes "0 \<le> ceffNF cfg" and "0 \<le> alpha cfg" and "0 \<le> f"
  shows "0 \<le> Ptot_of cfg f V T"
proof -
  have "0 \<le> ceffNF cfg * (V * V) * f * alpha cfg" using assms by simp
  moreover have "0 \<le> Pleak_of V T" by (simp add: Pleak_of_def P_Pleak0_def)
  ultimately show ?thesis by (simp add: Ptot_of_def Pdyn_of_def mult.assoc)
qed

lemma substep_T_floor:
  assumes s: "substep cfg h r = Inr (r', p, tt)" and h: "0 \<le> h"
    and pos: "0 \<le> ceffNF cfg" "0 \<le> alpha cfg" "0 \<le> f_ref r'"
    and T: "ambient cfg \<le> T_ref r"
  shows "ambient cfg \<le> T_ref r'"
proof -
  from s obtain rg where g: "governor cfg h r = Inr (rg, tt)"
    and ph: "physics cfg h rg = (r', p)" and fV: "f_ref r' = f_ref rg" "V_ref r' = V_ref rg"
    by (rule substep_parts)
  let ?S = "ambient cfg + Ptot_of cfg (f_ref r') (V_ref r') (T_ref r) * Rth"
  let ?k = "1 - exp (- h / tau_of cfg)"
  have k: "0 \<le> ?k \<and> ?k \<le> 1" using exp_gap [OF h tau_of_pos] .
  have Teq: "T_ref r' = T_ref r + (?S - T_ref r) * ?k"
    using physics_T [OF ph] governor_keeps [OF g] fV by simp
  have "ambient cfg \<le> ?S"
    using Ptot_nonneg [OF pos, of "V_ref r'" "T_ref r"] by (simp add: Rth_def)
  with T have "ambient cfg \<le> min (T_ref r) ?S" by simp
  also have "\<dots> \<le> T_ref r'"
    unfolding Teq using convex_between [of ?k "T_ref r" ?S] k by simp
  finally show ?thesis .
qed

subsection \<open>Three sub-steps under cfgT\<close>

lemma cfgT_facts:
  "\<not> manualOverride cfgT" "batteryWh cfgT \<noteq> 0" "0 \<le> ceffNF cfgT" "0 \<le> alpha cfgT"
  "thermalLimit cfgT \<le> ambient cfgT"
  by (simp_all add: cfgT_def cfg0_def alpha_def)

text \<open>One automatic sub-step under \<open>cfgT\<close>, where the ambient is above the thermal limit.\<close>

lemma substep_cfgT:
  assumes ok: "index_ok r" and T: "ambient cfgT \<le> T_ref r" and f: "0 \<le> f_ref r"
    and i: "2 \<le> pIndex_ref r" "pIndex_ref r < 6"
  shows "\<exists>r'. substeps [(cfgT, 1 / 4)] r = Inr r' \<and> index_ok r' \<and> ambient cfgT \<le> T_ref r' \<and>
           0 \<le> f_ref r' \<and> t_ref r' = t_ref r + 1 / 4 \<and>
           fst (desired_index cfgT r) = pIndex_ref r + 1 \<and>
           (if cooldown_tick (slewCooldown_ref r) (1 / 4) = 0
            then pIndex_ref r' = pIndex_ref r + 1 \<and> slewCooldown_ref r' = P_slewStepSec
            else pIndex_ref r' = pIndex_ref r \<and>
                 slewCooldown_ref r' = cooldown_tick (slewCooldown_ref r) (1 / 4))"
proof -
  have hot: "thermalLimit cfgT \<le> T_ref r" using T cfgT_facts(5) by simp
  have d: "fst (desired_index cfgT r) = pIndex_ref r + 1"
    using i by (simp add: desired_index_thermal [OF hot])
  obtain r' p where s: "substep cfgT (1 / 4) r = Inr (r', p, snd (desired_index cfgT r))"
    and t: "t_ref r' = t_ref r + 1 / 4"
    and c: "if cooldown_tick (slewCooldown_ref r) (1 / 4) = 0 \<and> fst (desired_index cfgT r) \<noteq> pIndex_ref r
            then pIndex_ref r' =
                   (if fst (desired_index cfgT r) < pIndex_ref r then pIndex_ref r - 1
                    else pIndex_ref r + 1) \<and>
                 slewCooldown_ref r' = P_slewStepSec \<and>
                 pstate_at (pIndex_ref r') = Some (f_ref r', V_ref r')
            else pIndex_ref r' = pIndex_ref r \<and>
                 slewCooldown_ref r' = cooldown_tick (slewCooldown_ref r) (1 / 4) \<and>
                 f_ref r' = f_ref r \<and> V_ref r' = V_ref r"
    using substep_auto [OF cfgT_facts(1,2) ok, of "1 / 4"] by blast
  have mv: "if cooldown_tick (slewCooldown_ref r) (1 / 4) = 0
            then pIndex_ref r' = pIndex_ref r + 1 \<and> slewCooldown_ref r' = P_slewStepSec
            else pIndex_ref r' = pIndex_ref r \<and>
                 slewCooldown_ref r' = cooldown_tick (slewCooldown_ref r) (1 / 4)"
    using c d by (simp split: if_splits)
  have ok': "index_ok r'"
    using mv i ok by (auto simp add: index_ok_def length_P_pstates split: if_splits)
  have f': "0 \<le> f_ref r'"
  proof (cases "cooldown_tick (slewCooldown_ref r) (1 / 4) = 0")
    case True
    have ps: "pstate_at (pIndex_ref r') = Some (f_ref r', V_ref r')"
      using c d True by auto
    have "pIndex_ref r' = pIndex_ref r + 1" using mv True by simp
    then have "pIndex_ref r' \<in> {3, 4, 5, 6}" using i by auto
    then show ?thesis using ps by (auto simp add: pstate_at_def P_pstates_def)
  next
    case False
    then show ?thesis using c f by simp
  qed
  have T': "ambient cfgT \<le> T_ref r'"
    using substep_T_floor [OF s _ cfgT_facts(3,4) f' T] by simp
  have "substeps [(cfgT, 1 / 4)] r = Inr r'" using s by simp
  with ok' T' f' t d mv show ?thesis by blast
qed

lemma run_cfgT:
  "substeps [(cfgT, 1 / 4)] (resetSim_refs cfgT) = Inr rW1"
  "substeps [(cfgT, 1 / 4)] rW1 = Inr rW2"
  "substeps [(cfgT, 1 / 4)] rW2 = Inr rW3"
  "pIndex_ref rW1 = 3" "pIndex_ref rW2 = 3" "pIndex_ref rW3 = 4"
  "t_ref rW1 = 1 / 4" "t_ref rW3 = 3 / 4"
  "slewCooldown_ref rW1 = 3 / 10"
  "fst (desired_index cfgT rW1) = 4"
proof -
  let ?r0 = "resetSim_refs cfgT"
  have r0: "index_ok ?r0" "ambient cfgT \<le> T_ref ?r0" "0 \<le> f_ref ?r0"
    "2 \<le> pIndex_ref ?r0" "pIndex_ref ?r0 < 6" "slewCooldown_ref ?r0 = 0" "t_ref ?r0 = 0"
    "pIndex_ref ?r0 = 2"
    by (simp_all add: index_ok_def resetSim_refs_def length_P_pstates P_pstates_def)
  obtain r1 where s1: "substeps [(cfgT, 1 / 4)] ?r0 = Inr r1"
    and k1: "index_ok r1" "ambient cfgT \<le> T_ref r1" "0 \<le> f_ref r1" "t_ref r1 = 1 / 4"
      "pIndex_ref r1 = 3" "slewCooldown_ref r1 = 3 / 10"
    using substep_cfgT [OF r0(1-5)] r0(6-8) by (auto simp add: cooldown_tick_def P_slewStepSec_def)
  have e1: "rW1 = r1" unfolding rW1_def s1 by simp
  obtain r2 where s2: "substeps [(cfgT, 1 / 4)] r1 = Inr r2"
    and k2: "index_ok r2" "ambient cfgT \<le> T_ref r2" "0 \<le> f_ref r2" "t_ref r2 = 1 / 2"
      "pIndex_ref r2 = 3" "slewCooldown_ref r2 = 1 / 20" "fst (desired_index cfgT r1) = 4"
    using substep_cfgT [OF k1(1-3)] k1(4-6) by (auto simp add: cooldown_tick_def)
  have e2: "rW2 = r2" unfolding rW2_def e1 s2 by simp
  obtain r3 where s3: "substeps [(cfgT, 1 / 4)] r2 = Inr r3"
    and k3: "t_ref r3 = 3 / 4" "pIndex_ref r3 = 4"
    using substep_cfgT [OF k2(1-3)] k2(4-6) by (auto simp add: cooldown_tick_def)
  have e3: "rW3 = r3" unfolding rW3_def e2 s3 by simp
  show "substeps [(cfgT, 1 / 4)] (resetSim_refs cfgT) = Inr rW1" unfolding e1 by (rule s1)
  show "substeps [(cfgT, 1 / 4)] rW1 = Inr rW2" unfolding e1 e2 by (rule s2)
  show "substeps [(cfgT, 1 / 4)] rW2 = Inr rW3" unfolding e2 e3 by (rule s3)
  show "pIndex_ref rW1 = 3" "pIndex_ref rW2 = 3" "pIndex_ref rW3 = 4"
    "t_ref rW1 = 1 / 4" "t_ref rW3 = 3 / 4" "slewCooldown_ref rW1 = 3 / 10"
    "fst (desired_index cfgT rW1) = 4"
    unfolding e1 e2 e3 using k1 k2 k3 by simp_all
qed

subsection \<open>Well-formed states stay well-formed, and the loop returns\<close>

lemma pstate_at_pos:
  assumes "pstate_at i = Some (f, V)"
  shows "0 < f \<and> 0 < V"
proof -
  from assms have "i \<in> {0, 1, 2, 3, 4, 5, 6}"
    by (auto simp add: pstate_at_def length_P_pstates split: if_splits)
  with assms show ?thesis
    by (auto simp add: pstate_at_def P_pstates_def)
qed

lemma pstate_at_index: "pstate_at i = Some fV \<Longrightarrow> 0 \<le> i \<and> i < int (length P_pstates)"
  by (simp add: pstate_at_def split: if_splits)

lemma governor_index_ok:
  assumes "governor cfg h r = Inr (rg, tt)" and "index_ok r"
  shows "index_ok rg"
proof (cases "pIndex_ref rg = pIndex_ref r")
  case True
  then show ?thesis using assms(2) by (simp add: index_ok_def)
next
  case False
  then show ?thesis
    using governor_change [OF assms(1) False] pstate_at_index [of "pIndex_ref rg"]
    by (simp add: index_ok_def)
qed

lemma governor_f_nonneg:
  assumes "governor cfg h r = Inr (rg, tt)" and "0 \<le> f_ref r"
  shows "0 \<le> f_ref rg"
proof (cases "manualOverride cfg")
  case True
  then show ?thesis using assms(1) by (auto simp add: governor_manual clamp_def P_fMin_def)
next
  case False
  show ?thesis
    using governor_auto [OF False assms(1)] assms(2) pstate_at_pos [of "pIndex_ref rg" "f_ref rg" "V_ref rg"]
    by (auto split: if_splits)
qed

lemma substep_index_ok:
  assumes "substep cfg h r = Inr (r', p, tt)" and "index_ok r"
  shows "index_ok r'"
proof -
  from assms(1) obtain rg where g: "governor cfg h r = Inr (rg, tt)"
    and k: "pIndex_ref r' = pIndex_ref rg"
    by (rule substep_parts)
  show ?thesis using governor_index_ok [OF g assms(2)] k by (simp add: index_ok_def)
qed

lemma substep_f_nonneg:
  assumes "substep cfg h r = Inr (r', p, tt)" and "0 \<le> f_ref r"
  shows "0 \<le> f_ref r'"
proof -
  from assms(1) obtain rg where g: "governor cfg h r = Inr (rg, tt)"
    and k: "f_ref r' = f_ref rg"
    by (rule substep_parts)
  show ?thesis using governor_f_nonneg [OF g assms(2)] k by simp
qed

lemma index_ok_reset: "index_ok (resetSim_refs cfg)"
  by (simp add: index_ok_def resetSim_refs_def length_P_pstates)

lemma loop_body_index_ok:
  assumes "loop_body cfg h (r, l) = Inr (r', l')" and "index_ok r"
  shows "index_ok r'"
  using assms substep_index_ok by (auto simp add: loop_body_Inr_iff)

text \<open>From a well-formed state the loop returns, without a fault.\<close>

lemma advance_total:
  "batteryWh cfg \<noteq> 0 \<Longrightarrow> index_ok (fst rl) \<Longrightarrow>
     \<exists>rl'. advance cfg er vtime rl = Inr rl' \<and> index_ok (fst rl')"
proof (induction cfg er vtime rl rule: advance.induct)
  case (1 cfg er vtime rl)
  show ?case
  proof (cases "vtime > 0 \<and> still_running er (snd rl)")
    case False
    then have "advance cfg er vtime rl = Inr rl" by (subst advance.simps) auto
    then show ?thesis using "1.prems"(2) by blast
  next
    case True
    obtain r' l' where lb: "loop_body cfg (min P_dt vtime) (fst rl, snd rl) = Inr (r', l')"
      using loop_body_total [OF "1.prems"(2,1), of "min P_dt vtime" "snd rl"] by blast
    then have lb': "loop_body cfg (min P_dt vtime) rl = Inr (r', l')" by simp
    have ok: "index_ok (fst (r', l'))" using loop_body_index_ok [OF lb "1.prems"(2)] by simp
    have "\<exists>rl'. advance cfg er (vtime - min P_dt vtime) (r', l') = Inr rl' \<and> index_ok (fst rl')"
      using "1.IH" [OF True lb' "1.prems"(1) ok] .
    then show ?thesis using True lb' by (subst advance.simps) simp
  qed
qed

subsection \<open>Rounding to two decimals\<close>

lemma toFixed_two_decimals:
  assumes "0 \<le> x" and "x < 10 ^ 21" and "x * 100 = of_int n"
  shows "toFixed 2 x = x"
proof -
  have "\<lfloor>x * 10 ^ 2 + 1 / 2\<rfloor> = n" using assms(3) by (simp add: floor_unique)
  then show ?thesis using assms by (simp add: toFixed_def)
qed

lemma toFixed_two_decimals_Ints:
  assumes "0 \<le> x" and "x < 10 ^ 21" and "x * 100 \<in> \<int>"
  shows "toFixed 2 x = x"
proof -
  from assms(3) obtain n where "x * 100 = of_int n" by (auto elim: Ints_cases)
  then show ?thesis using toFixed_two_decimals [OF assms(1,2)] by simp
qed

lemma clamp_cases: "clamp x lo hi = x \<or> clamp x lo hi = lo \<or> clamp x lo hi = hi"
  by (auto simp add: clamp_def max_def min_def)

lemma clamp_bounds: "lo \<le> hi \<Longrightarrow> lo \<le> clamp x lo hi \<and> clamp x lo hi \<le> hi"
  by (auto simp add: clamp_def)

lemma toFixed_clamp_f:
  assumes "freqGHz cfg * 100 \<in> \<int>"
  shows "toFixed 2 (clamp (freqGHz cfg) P_fMin P_fMax) = clamp (freqGHz cfg) P_fMin P_fMax"
proof -
  have b: "P_fMin \<le> clamp (freqGHz cfg) P_fMin P_fMax \<and> clamp (freqGHz cfg) P_fMin P_fMax \<le> P_fMax"
    by (rule clamp_bounds) (simp add: P_fMin_def P_fMax_def)
  have "P_fMin * 100 = of_int 60" "P_fMax * 100 = of_int 350"
    by (simp_all add: P_fMin_def P_fMax_def)
  then have "P_fMin * 100 \<in> \<int>" "P_fMax * 100 \<in> \<int>" by (metis Ints_of_int)+
  then have "clamp (freqGHz cfg) P_fMin P_fMax * 100 \<in> \<int>"
    using assms clamp_cases [of "freqGHz cfg" P_fMin P_fMax] by auto
  then show ?thesis
    using b by (intro toFixed_two_decimals_Ints) (simp_all add: P_fMin_def P_fMax_def)
qed

lemma toFixed_clamp_V:
  assumes "vdd cfg * 100 \<in> \<int>"
  shows "toFixed 2 (clamp (vdd cfg) P_vMin P_vMax) = clamp (vdd cfg) P_vMin P_vMax"
proof -
  have b: "P_vMin \<le> clamp (vdd cfg) P_vMin P_vMax \<and> clamp (vdd cfg) P_vMin P_vMax \<le> P_vMax"
    by (rule clamp_bounds) (simp add: P_vMin_def P_vMax_def)
  have "P_vMin * 100 = of_int 60" "P_vMax * 100 = of_int 110"
    by (simp_all add: P_vMin_def P_vMax_def)
  then have "P_vMin * 100 \<in> \<int>" "P_vMax * 100 \<in> \<int>" by (metis Ints_of_int)+
  then have "clamp (vdd cfg) P_vMin P_vMax * 100 \<in> \<int>"
    using assms clamp_cases [of "vdd cfg" P_vMin P_vMax] by auto
  then show ?thesis
    using b by (intro toFixed_two_decimals_Ints) (simp_all add: P_vMin_def P_vMax_def)
qed

lemma cfgM_sliders: "freqGHz cfgM * 100 \<in> \<int>" "vdd cfgM * 100 \<in> \<int>"
proof -
  have "freqGHz cfgM * 100 = of_int 100" "vdd cfgM * 100 = of_int 80"
    by (simp_all add: cfgM_def cfg0_def)
  then show "freqGHz cfgM * 100 \<in> \<int>" "vdd cfgM * 100 \<in> \<int>" by (metis Ints_of_int)+
qed

lemma tick_total:
  assumes "batteryWh cfg \<noteq> 0" and "index_ok r"
  shows "\<exists>r' s'. tick cfg (r, s) = Inr (r', s') \<and> index_ok r'"
proof -
  let ?l = "\<lparr> localEnd = None, localThrottling = throttling s, newPoints = [],
             remainingGI_set = None \<rparr>"
  let ?v = "(100 / 1000) * clamp (speed cfg) 1 50"
  have "\<exists>rl'. advance cfg (endReason s) ?v (r, ?l) = Inr rl' \<and> index_ok (fst rl')"
    by (rule advance_total [OF assms(1)]) (simp add: assms(2))
  then obtain r' l' where "advance cfg (endReason s) ?v (r, ?l) = Inr (r', l')" and "index_ok r'"
    by force
  then show ?thesis unfolding tick_def Let_def by simp
qed

subsection \<open>The loop as a run of sub-steps\<close>

text \<open>What the loop does to the refs is a run of sub-steps of positive size.\<close>

lemma advance_substeps:
  "advance cfg er vtime rl = Inr rl' \<Longrightarrow>
     \<exists>xs. substeps xs (fst rl) = Inr (fst rl') \<and>
          (\<forall>x\<in>set xs. fst x = cfg \<and> 0 < snd x \<and> snd x \<le> P_dt)"
proof (induction cfg er vtime rl rule: advance.induct)
  case (1 cfg er vtime rl)
  show ?case
  proof (cases "vtime > 0 \<and> still_running er (snd rl)")
    case False
    then have "advance cfg er vtime rl = Inr rl" by (subst advance.simps) auto
    with "1.prems" have "rl' = rl" by simp
    then have "substeps [] (fst rl) = Inr (fst rl')" by simp
    then show ?thesis by (intro exI [of _ "[]"]) simp
  next
    case True
    let ?h = "min P_dt vtime"
    have unf: "advance cfg er vtime rl =
        (case loop_body cfg ?h rl of Inl e \<Rightarrow> Inl e
         | Inr rl1 \<Rightarrow> advance cfg er (vtime - ?h) rl1)"
      using True by (subst advance.simps) simp
    with "1.prems" obtain rl1 where lb: "loop_body cfg ?h rl = Inr rl1"
      and rest: "advance cfg er (vtime - ?h) rl1 = Inr rl'"
      by (auto split: sum.splits)
    from "1.IH" [OF True lb rest] obtain xs where xs: "substeps xs (fst rl1) = Inr (fst rl')"
      and all: "\<forall>x\<in>set xs. fst x = cfg \<and> 0 < snd x \<and> snd x \<le> P_dt"
      by blast
    from lb obtain p tt where s: "substep cfg ?h (fst rl) = Inr (fst rl1, p, tt)"
      using loop_body_Inr_iff [of cfg ?h "fst rl" "snd rl" "fst rl1" "snd rl1"] by auto
    have h: "0 < ?h \<and> ?h \<le> P_dt" using True by (simp add: P_dt_def)
    have "substeps ((cfg, ?h) # xs) (fst rl) = Inr (fst rl')" using s xs by simp
    moreover have "\<forall>x\<in>set ((cfg, ?h) # xs). fst x = cfg \<and> 0 < snd x \<and> snd x \<le> P_dt"
      using all h by simp
    ultimately show ?thesis by blast
  qed
qed

lemma tick_substeps:
  assumes "tick cfg (r, s) = Inr (r', s')"
  shows "\<exists>xs. substeps xs r = Inr r' \<and> (\<forall>x\<in>set xs. fst x = cfg \<and> 0 < snd x \<and> snd x \<le> P_dt)"
proof -
  let ?l = "\<lparr> localEnd = None, localThrottling = throttling s, newPoints = [],
             remainingGI_set = None \<rparr>"
  let ?v = "(100 / 1000) * clamp (speed cfg) 1 50"
  from assms obtain l' where "advance cfg (endReason s) ?v (r, ?l) = Inr (r', l')"
    unfolding tick_def Let_def by (auto split: sum.splits prod.splits)
  from advance_substeps [OF this] show ?thesis by simp
qed

subsection \<open>The remaining workload\<close>

lemma substep_remaining:
  assumes "substep cfg h r = Inr (r', p, tt)"
  shows "remainingGI_ref r' = max 0 (remainingGI_ref r - max 0 (ipc cfg * f_ref r') * h)"
proof -
  from assms obtain rg where g: "governor cfg h r = Inr (rg, tt)"
    and ph: "physics cfg h rg = (r', p)" and f: "f_ref r' = f_ref rg"
    by (rule substep_parts)
  show ?thesis
    using physics_remaining [OF ph] governor_keeps [OF g] f by (simp add: perfGIPS_of_def)
qed

lemma substep_remaining_bounds:
  assumes "substep cfg h r = Inr (r', p, tt)" and "0 \<le> h"
  shows "0 \<le> remainingGI_ref r' \<and> remainingGI_ref r' \<le> max 0 (remainingGI_ref r)"
proof -
  have "0 \<le> max 0 (ipc cfg * f_ref r') * h" using assms(2) by simp
  then show ?thesis unfolding substep_remaining [OF assms(1)] by simp
qed

lemma substeps_remaining:
  "substeps xs r = Inr r' \<Longrightarrow> \<forall>x\<in>set xs. 0 \<le> snd x \<Longrightarrow> 0 \<le> remainingGI_ref r \<Longrightarrow>
     0 \<le> remainingGI_ref r' \<and> remainingGI_ref r' \<le> remainingGI_ref r"
proof (induction xs arbitrary: r)
  case Nil
  then show ?case by simp
next
  case (Cons x xs)
  obtain cfg h where x: "x = (cfg, h)" by (cases x)
  from Cons.prems(1) x obtain r1 p tt where s: "substep cfg h r = Inr (r1, p, tt)"
    and rest: "substeps xs r1 = Inr r'"
    by (auto split: sum.splits)
  have h: "0 \<le> h" using Cons.prems(2) x by simp
  have b: "0 \<le> remainingGI_ref r1" "remainingGI_ref r1 \<le> remainingGI_ref r"
    using substep_remaining_bounds [OF s h] Cons.prems(3) by simp_all
  have "0 \<le> remainingGI_ref r' \<and> remainingGI_ref r' \<le> remainingGI_ref r1"
    using Cons.IH [OF rest _ b(1)] Cons.prems(2) by simp
  then show ?case using b(2) by simp
qed

lemma advance_one:
  assumes "loop_body cfg vtime (r, l) = Inr (r', l')" and "0 < vtime" and "vtime \<le> P_dt"
    and "localEnd l = None"
  shows "advance cfg Running vtime (r, l) = Inr (r', l')"
proof -
  have m: "min P_dt vtime = vtime" using assms(3) by simp
  have run: "still_running Running l" using assms(4) by (simp add: still_running_def)
  have "advance cfg Running vtime (r, l) = advance cfg Running (vtime - min P_dt vtime) (r', l')"
    using assms(1,2) run m by (subst advance.simps) simp
  also have "\<dots> = Inr (r', l')" unfolding m by (subst advance.simps) simp
  finally show ?thesis .
qed

lemma cfgP_manual: "manualOverride cfgP" "batteryWh cfgP \<noteq> 0"
  by (simp_all add: cfgP_def cfgM_def cfg0_def)

lemma substep_cfgP:
  "substep cfgP (1 / 10) (resetSim_refs cfgP) =
     Inr (fst (physics cfgP (1 / 10) rgP), snd (physics cfgP (1 / 10) rgP), False)"
proof -
  have c: "clamp (freqGHz cfgP) P_fMin P_fMax = 1" "clamp (vdd cfgP) P_vMin P_vMax = 0.8"
    by (simp_all add: cfgP_def cfgM_def cfg0_def clamp_def P_fMin_def P_fMax_def P_vMin_def P_vMax_def)
  show ?thesis unfolding substep_manual [OF cfgP_manual] c rgP_def ..
qed

lemma remaining_cfgP: "remainingGI_ref (fst (physics cfgP (1 / 10) rgP)) = 999.815"
  by (simp add: physics_fst_vals perfGIPS_of_def ipc_def P_IPCmin_def P_IPCmax_def rgP_def
      resetSim_refs_def cfgP_def cfgM_def cfg0_def)

lemma tick_cfgP:
  "\<not> isl (tick cfgP (resetSim cfgP))"
  "fst (projr (tick cfgP (resetSim cfgP))) = fst (physics cfgP (1 / 10) rgP)"
proof -
  let ?l = "\<lparr> localEnd = None, localThrottling = throttling (snd (resetSim cfgP)), newPoints = [],
             remainingGI_set = None \<rparr>"
  have v: "(100 / 1000) * clamp (speed cfgP) 1 50 = (1 / 10 :: real)"
    by (simp add: clamp_def cfgP_def)
  obtain l' where lb: "loop_body cfgP (1 / 10) (resetSim_refs cfgP, ?l)
      = Inr (fst (physics cfgP (1 / 10) rgP), l')"
    by (simp add: loop_body_def substep_cfgP)
  have adv: "advance cfgP (endReason (snd (resetSim cfgP))) (1 / 10) (fst (resetSim cfgP), ?l)
               = Inr (fst (physics cfgP (1 / 10) rgP), l')"
    using advance_one [OF lb] by (simp add: P_dt_def resetSim_def resetSim_state_def)
  show "\<not> isl (tick cfgP (resetSim cfgP))"
    unfolding tick_def Let_def v adv by simp
  show "fst (projr (tick cfgP (resetSim cfgP))) = fst (physics cfgP (1 / 10) rgP)"
    unfolding tick_def Let_def v adv by simp
qed

section \<open>The claims\<close>

text \<open>
  C2. In every sub-step the new temperature is
  \<open>T + (T_ss - T) * (1 - exp (- h / \<tau>))\<close> with \<open>T_ss = ambient + P * R_th\<close>, where
  \<open>P\<close> is the total power of this sub-step (at the operating point the governor has just
  chosen and the temperature before the update) and \<open>\<tau>\<close> is the configured time
  constant floored at \<open>8 * 10^-6\<close>. The equality holds for every step size.
\<close>

theorem thermal_update_exact:
  assumes "index_ok r" and "batteryWh cfg \<noteq> 0"
  shows "\<exists>r' p tt. substep cfg h r = Inr (r', p, tt) \<and>
           T_ref r' = T_ref r
              + (ambient cfg + Ptot_of cfg (f_ref r') (V_ref r') (T_ref r) * Rth - T_ref r)
                * (1 - exp (- h / max (8 / 10 ^ 6) (tauSec cfg)))"
proof -
  obtain r' p tt where s: "substep cfg h r = Inr (r', p, tt)"
    using substep_total [OF assms] by blast
  then obtain rg where g: "governor cfg h r = Inr (rg, tt)" and ph: "physics cfg h rg = (r', p)"
    by (auto simp add: substep_Inr_iff)
  show ?thesis
    using s physics_T [OF ph] physics_keeps [OF ph] governor_keeps [OF g]
    by (simp add: tau_of_eq)
qed

theorem thermal_update_exact_witness:
  "index_ok (resetSim_refs cfg0) \<and> batteryWh cfg0 \<noteq> 0 \<and>
   (\<exists>r' p tt. substep cfg0 (1 / 4) (resetSim_refs cfg0) = Inr (r', p, tt) \<and>
           T_ref r' = 25 + (25 + Ptot_of cfg0 (f_ref r') (V_ref r') 25 * Rth - 25)
                * (1 - exp (- (1 / 4) / 60)))"
  using thermal_update_exact [of "resetSim_refs cfg0" cfg0 "1 / 4"]
  by (simp add: index_ok_def resetSim_refs_def cfg0_def length_P_pstates)

text \<open>
  C8. For a sub-step of size \<open>h > 0\<close> the new temperature lies between the previous
  temperature and the steady-state target \<open>T_ss = ambient + P * R_th\<close> of this sub-step's
  power, bounds included, whichever of the two is the larger: the temperature moves
  towards the target and never past it. (The time constant is positive by its floor.)
\<close>

theorem thermal_no_overshoot:
  assumes "index_ok r" and "batteryWh cfg \<noteq> 0" and "0 < h"
  shows "\<exists>r' p tt. substep cfg h r = Inr (r', p, tt) \<and>
           min (T_ref r) (ambient cfg + Ptot_of cfg (f_ref r') (V_ref r') (T_ref r) * Rth)
             \<le> T_ref r' \<and>
           T_ref r' \<le>
             max (T_ref r) (ambient cfg + Ptot_of cfg (f_ref r') (V_ref r') (T_ref r) * Rth)"
proof -
  obtain r' p tt where s: "substep cfg h r = Inr (r', p, tt)"
    using substep_total [OF assms(1,2)] by blast
  then obtain rg where g: "governor cfg h r = Inr (rg, tt)" and ph: "physics cfg h rg = (r', p)"
    by (auto simp add: substep_Inr_iff)
  have k: "0 \<le> 1 - exp (- h / tau_of cfg) \<and> 1 - exp (- h / tau_of cfg) \<le> 1"
    using exp_gap [of h "tau_of cfg"] assms(3) tau_of_pos by simp
  show ?thesis
    using s physics_T [OF ph] physics_keeps [OF ph] governor_keeps [OF g]
      convex_between [of "1 - exp (- h / tau_of cfg)" "T_ref r"
        "ambient cfg + Ptot_of cfg (f_ref r') (V_ref r') (T_ref r) * Rth"] k
    by simp
qed

theorem thermal_no_overshoot_witness:
  "index_ok (resetSim_refs cfg0) \<and> batteryWh cfg0 \<noteq> 0 \<and> (0::real) < 1 / 4 \<and>
   (\<exists>r' p tt. substep cfg0 (1 / 4) (resetSim_refs cfg0) = Inr (r', p, tt) \<and>
      min 25 (25 + Ptot_of cfg0 (f_ref r') (V_ref r') 25 * Rth) \<le> T_ref r' \<and>
      T_ref r' \<le> max 25 (25 + Ptot_of cfg0 (f_ref r') (V_ref r') 25 * Rth))"
  using thermal_no_overshoot [of "resetSim_refs cfg0" cfg0 "1 / 4"]
  by (simp add: index_ok_def resetSim_refs_def cfg0_def length_P_pstates)

text \<open>
  C10. \<^verbatim>\<open>resetSim\<close> seeds the governor at table index 2, the third P-state
  (2.2 GHz, 0.92 V), with a zero slew cooldown, whatever the configuration. The target
  index derived from the workload mix is not applied: for a workload mix of 0 the target
  is index 6 while the index after reset is 2, four table entries away.
\<close>

theorem reset_seeds_index_two:
  "pIndex_ref (fst (resetSim cfg)) = 2 \<and> pstate_at 2 = Some (2.2, 0.92) \<and>
   f_ref (fst (resetSim cfg)) = 2.2 \<and> V_ref (fst (resetSim cfg)) = 0.92 \<and>
   slewCooldown_ref (fst (resetSim cfg)) = 0 \<and>
   targetPIndex (cfg\<lparr>workloadMix := 0\<rparr>) = 6 \<and>
   pIndex_ref (fst (resetSim (cfg\<lparr>workloadMix := 0\<rparr>))) = 2"
  by (simp add: resetSim_def resetSim_refs_def pstate_at_def P_pstates_def targetPIndex_def
      js_round_def clamp_def)

text \<open>
  C7, as amended. A sub-step of size \<open>h > 0\<close> replaces the remaining workload by
  \<open>max 0 (remaining - rate * h)\<close> with the instruction rate \<open>max 0 (ipc * f)\<close>. So the
  remaining workload is never negative after a sub-step; a sub-step does not increase a
  non-negative pool and takes a negative one, the seed of a reset with a negative
  configured workload, to 0; and from the first sub-step on the pool stays non-negative
  and does not increase along any run of consecutive sub-steps.
\<close>

theorem workload_clamped_runs:
  assumes "index_ok r" and "batteryWh cfg \<noteq> 0" and "0 < h"
  shows "remainingGI_ref (resetSim_refs cfg) = workloadGI cfg \<and>
         (\<exists>r' p tt. substep cfg h r = Inr (r', p, tt) \<and>
            remainingGI_ref r' = max 0 (remainingGI_ref r - max 0 (ipc cfg * f_ref r') * h) \<and>
            0 \<le> remainingGI_ref r' \<and>
            (0 \<le> remainingGI_ref r \<longrightarrow> remainingGI_ref r' \<le> remainingGI_ref r) \<and>
            (remainingGI_ref r < 0 \<longrightarrow> remainingGI_ref r' = 0) \<and>
            (\<forall>xs r2. substeps xs r' = Inr r2 \<and> (\<forall>x\<in>set xs. 0 \<le> snd x) \<longrightarrow>
               0 \<le> remainingGI_ref r2 \<and> remainingGI_ref r2 \<le> remainingGI_ref r'))"
proof -
  obtain r' p tt where s: "substep cfg h r = Inr (r', p, tt)"
    using substep_total [OF assms(1,2)] by blast
  have h: "0 \<le> h" using assms(3) by simp
  have eq: "remainingGI_ref r' = max 0 (remainingGI_ref r - max 0 (ipc cfg * f_ref r') * h)"
    by (rule substep_remaining [OF s])
  have b: "0 \<le> remainingGI_ref r'" "remainingGI_ref r' \<le> max 0 (remainingGI_ref r)"
    using substep_remaining_bounds [OF s h] by simp_all
  have up: "0 \<le> remainingGI_ref r \<longrightarrow> remainingGI_ref r' \<le> remainingGI_ref r"
    using b(2) by (auto simp add: max_def)
  have neg: "remainingGI_ref r < 0 \<longrightarrow> remainingGI_ref r' = 0"
    using b by (auto simp add: max_def)
  have run: "\<forall>xs r2. substeps xs r' = Inr r2 \<and> (\<forall>x\<in>set xs. 0 \<le> snd x) \<longrightarrow>
               0 \<le> remainingGI_ref r2 \<and> remainingGI_ref r2 \<le> remainingGI_ref r'"
    using substeps_remaining b(1) by blast
  have seed: "remainingGI_ref (resetSim_refs cfg) = workloadGI cfg"
    by (simp add: resetSim_refs_def)
  show ?thesis using seed s eq b(1) up neg run by blast
qed

theorem workload_clamped_runs_witness:
  "index_ok (resetSim_refs cfg0) \<and> batteryWh cfg0 \<noteq> 0 \<and> (0::real) < 1 / 4 \<and>
   0 \<le> remainingGI_ref (resetSim_refs cfg0) \<and> (0::real) \<le> 1 / 4 \<and>
   (\<exists>r' p tt. substep cfg0 (1 / 4) (resetSim_refs cfg0) = Inr (r', p, tt) \<and>
      remainingGI_ref r' =
        max 0 (remainingGI_ref (resetSim_refs cfg0) - max 0 (ipc cfg0 * f_ref r') * (1 / 4)) \<and>
      0 \<le> remainingGI_ref r' \<and> remainingGI_ref r' \<le> remainingGI_ref (resetSim_refs cfg0) \<and>
      (\<exists>r2. substeps [(cfg0, 1 / 4), (cfg0, 1 / 4)] r' = Inr r2 \<and>
         0 \<le> remainingGI_ref r2 \<and> remainingGI_ref r2 \<le> remainingGI_ref r'))"
proof -
  have a: "index_ok (resetSim_refs cfg0)" by (rule index_ok_reset)
  have b: "batteryWh cfg0 \<noteq> 0" by (simp add: cfg0_def)
  have c: "(0::real) < 1 / 4" by simp
  have d: "0 \<le> remainingGI_ref (resetSim_refs cfg0)" by (simp add: resetSim_refs_def cfg0_def)
  obtain r' p tt where s: "substep cfg0 (1 / 4) (resetSim_refs cfg0) = Inr (r', p, tt)"
    and eq: "remainingGI_ref r' =
        max 0 (remainingGI_ref (resetSim_refs cfg0) - max 0 (ipc cfg0 * f_ref r') * (1 / 4))"
    and nn: "0 \<le> remainingGI_ref r'"
    and up: "0 \<le> remainingGI_ref (resetSim_refs cfg0) \<longrightarrow>
               remainingGI_ref r' \<le> remainingGI_ref (resetSim_refs cfg0)"
    and run: "\<forall>xs r2. substeps xs r' = Inr r2 \<and> (\<forall>x\<in>set xs. 0 \<le> snd x) \<longrightarrow>
               0 \<le> remainingGI_ref r2 \<and> remainingGI_ref r2 \<le> remainingGI_ref r'"
    using workload_clamped_runs [OF a b c] by blast
  have ok1: "index_ok r'" by (rule substep_index_ok [OF s a])
  obtain r1 p1 t1 where s1: "substep cfg0 (1 / 4) r' = Inr (r1, p1, t1)"
    using substep_total [OF ok1 b] by blast
  have ok2: "index_ok r1" by (rule substep_index_ok [OF s1 ok1])
  obtain r2 p2 t2 where s2: "substep cfg0 (1 / 4) r1 = Inr (r2, p2, t2)"
    using substep_total [OF ok2 b] by blast
  have ss: "substeps [(cfg0, 1 / 4), (cfg0, 1 / 4)] r' = Inr r2" using s1 s2 by simp
  have "0 \<le> remainingGI_ref r2 \<and> remainingGI_ref r2 \<le> remainingGI_ref r'"
    using run ss by (elim allE [of _ "[(cfg0, 1 / 4), (cfg0, 1 / 4)]"] allE [of _ r2]) simp
  with a b c d s eq nn up ss show ?thesis by auto
qed

text \<open>
  The claim as stated, for every step of every run, fails twice. After a reset with a
  configured workload of \<open>-5\<close> the pool is negative and the first sub-step raises it to
  0. And inside a run, with no reset, the effect of lines 102 to 104 raises the pool when
  playback is paused: after one handler run at speed 1 the pool is 999.815, after the
  pause it is 1000 again while the simulated time stays at a tenth of a second.
\<close>

theorem workload_counterexample:
  "remainingGI_ref (resetSim_refs cfgN) = - 5 \<and>
   \<not> isl (substep cfgN (1 / 4) (resetSim_refs cfgN)) \<and>
   remainingGI_ref (fst (projr (substep cfgN (1 / 4) (resetSim_refs cfgN)))) = 0 \<and>
   remainingGI_ref (resetSim_refs cfgN)
     < remainingGI_ref (fst (projr (substep cfgN (1 / 4) (resetSim_refs cfgN)))) \<and>
   \<not> isl (tick cfgP (resetSim cfgP)) \<and>
   remainingGI_ref (fst (projr (tick cfgP (resetSim cfgP)))) = 999.815 \<and>
   remainingGI_ref (fst (reseed_effect False cfgP (projr (tick cfgP (resetSim cfgP))))) = 1000 \<and>
   t_ref (fst (reseed_effect False cfgP (projr (tick cfgP (resetSim cfgP))))) = 1 / 10 \<and>
   remainingGI_ref (fst (projr (tick cfgP (resetSim cfgP))))
     < remainingGI_ref (fst (reseed_effect False cfgP (projr (tick cfgP (resetSim cfgP)))))"
proof -
  have seed: "remainingGI_ref (resetSim_refs cfgN) = - 5"
    by (simp add: resetSim_refs_def cfgN_def)
  have b: "batteryWh cfgN \<noteq> 0" by (simp add: cfgN_def cfg0_def)
  obtain r' p tt where s: "substep cfgN (1 / 4) (resetSim_refs cfgN) = Inr (r', p, tt)"
    using substep_total [OF index_ok_reset b] by blast
  have "0 \<le> remainingGI_ref r' \<and> remainingGI_ref r' \<le> max 0 (remainingGI_ref (resetSim_refs cfgN))"
    by (rule substep_remaining_bounds [OF s]) simp
  then have zero: "remainingGI_ref r' = 0" unfolding seed by simp
  have n1: "\<not> isl (substep cfgN (1 / 4) (resetSim_refs cfgN))"
    and n2: "remainingGI_ref (fst (projr (substep cfgN (1 / 4) (resetSim_refs cfgN)))) = 0"
    unfolding s using zero by simp_all
  have n3: "remainingGI_ref (resetSim_refs cfgN)
     < remainingGI_ref (fst (projr (substep cfgN (1 / 4) (resetSim_refs cfgN))))"
    unfolding n2 seed by simp
  have p1: "remainingGI_ref (fst (projr (tick cfgP (resetSim cfgP)))) = 999.815"
    unfolding tick_cfgP(2) by (rule remaining_cfgP)
  have p2: "remainingGI_ref (fst (reseed_effect False cfgP (projr (tick cfgP (resetSim cfgP))))) = 1000"
    by (simp add: reseed_effect_def cfgP_def cfgM_def cfg0_def)
  have p3: "t_ref (fst (reseed_effect False cfgP (projr (tick cfgP (resetSim cfgP))))) = 1 / 10"
    by (simp add: reseed_effect_def tick_cfgP(2) physics_fst_vals rgP_def resetSim_refs_def)
  have p4: "remainingGI_ref (fst (projr (tick cfgP (resetSim cfgP))))
     < remainingGI_ref (fst (reseed_effect False cfgP (projr (tick cfgP (resetSim cfgP)))))"
    unfolding p1 p2 by simp
  show ?thesis using seed n1 n2 n3 tick_cfgP(1) p1 p2 p3 p4 by (intro conjI)
qed

text \<open>
  C6. With manual override every sub-step sets the operating point to
  \<open>(clamp freqGHz fMin fMax, clamp vdd vMin vMax)\<close> exactly, from any state of the refs
  (whatever the temperature and the energy drawn), and leaves the governor's index and
  slew cooldown as they were. The sample of the sub-step stores the operating point with
  two decimals, which is the same value whenever the two settings are whole hundredths,
  as all values of the two sliders are (steps 0.05 and 0.01).
\<close>

theorem manual_override_exact:
  assumes "manualOverride cfg" and "batteryWh cfg \<noteq> 0"
  shows "\<exists>r' p. substep cfg h r = Inr (r', p, False) \<and>
           f_ref r' = clamp (freqGHz cfg) P_fMin P_fMax \<and>
           V_ref r' = clamp (vdd cfg) P_vMin P_vMax \<and>
           pIndex_ref r' = pIndex_ref r \<and> slewCooldown_ref r' = slewCooldown_ref r \<and>
           sp_f p = toFixed 2 (f_ref r') \<and> sp_V p = toFixed 2 (V_ref r') \<and>
           (freqGHz cfg * 100 \<in> \<int> \<and> vdd cfg * 100 \<in> \<int> \<longrightarrow>
              sp_f p = f_ref r' \<and> sp_V p = V_ref r')"
proof -
  let ?rg = "r\<lparr>f_ref := clamp (freqGHz cfg) P_fMin P_fMax, V_ref := clamp (vdd cfg) P_vMin P_vMax\<rparr>"
  obtain r' p where ph: "physics cfg h ?rg = (r', p)" by (cases "physics cfg h ?rg")
  have s: "substep cfg h r = Inr (r', p, False)"
    using assms ph by (simp add: substep_def governor_manual)
  have k: "f_ref r' = clamp (freqGHz cfg) P_fMin P_fMax" "V_ref r' = clamp (vdd cfg) P_vMin P_vMax"
    "pIndex_ref r' = pIndex_ref r" "slewCooldown_ref r' = slewCooldown_ref r"
    using physics_keeps [OF ph] by simp_all
  have pt: "sp_f p = toFixed 2 (f_ref r')" "sp_V p = toFixed 2 (V_ref r')"
    using physics_point_fV [OF ph] k by simp_all
  have "freqGHz cfg * 100 \<in> \<int> \<and> vdd cfg * 100 \<in> \<int> \<longrightarrow> sp_f p = f_ref r' \<and> sp_V p = V_ref r'"
    using pt k toFixed_clamp_f [of cfg] toFixed_clamp_V [of cfg] by simp
  with s k pt show ?thesis by blast
qed

theorem manual_override_exact_witness:
  "manualOverride cfgM \<and> batteryWh cfgM \<noteq> 0 \<and> freqGHz cfgM * 100 \<in> \<int> \<and> vdd cfgM * 100 \<in> \<int> \<and>
   (\<exists>r' p. substep cfgM (1 / 4) (resetSim_refs cfgM) = Inr (r', p, False) \<and>
      f_ref r' = 1 \<and> V_ref r' = 0.8 \<and> pIndex_ref r' = 2 \<and> slewCooldown_ref r' = 0 \<and>
      sp_f p = 1 \<and> sp_V p = 0.8)"
proof -
  have m: "manualOverride cfgM" "batteryWh cfgM \<noteq> 0" by (simp_all add: cfgM_def cfg0_def)
  have c: "clamp (freqGHz cfgM) P_fMin P_fMax = 1" "clamp (vdd cfgM) P_vMin P_vMax = 0.8"
    by (simp_all add: cfgM_def cfg0_def clamp_def P_fMin_def P_fMax_def P_vMin_def P_vMax_def)
  have r: "pIndex_ref (resetSim_refs cfgM) = 2" "slewCooldown_ref (resetSim_refs cfgM) = 0"
    by (simp_all add: resetSim_refs_def)
  show ?thesis
    using m cfgM_sliders manual_override_exact [OF m, of "1 / 4" "resetSim_refs cfgM"]
    unfolding c r by auto
qed

text \<open>
  C3, as amended. The power recorded in the sample of a sub-step is \<open>P_dyn + P_leak\<close>
  rounded to three decimals (\<^verbatim>\<open>+Ptot.toFixed(3)\<close>), where
  \<open>P_dyn = C_eff * V\<^sup>2 * f * \<alpha>\<close> and
  \<open>P_leak = P_leak0 * exp (k_V * (V - 0.8)) * exp (\<gamma> * (T - 25))\<close> are taken at the
  operating point of this sub-step and the temperature before its thermal update.
\<close>

theorem recorded_power_rounded:
  assumes "index_ok r" and "batteryWh cfg \<noteq> 0"
  shows "\<exists>r' p tt. substep cfg h r = Inr (r', p, tt) \<and>
           sp_power p =
             toFixed 3 (ceffNF cfg * V_ref r' * V_ref r' * f_ref r' * alpha cfg
                        + P_Pleak0 * exp (P_kV * (V_ref r' - 0.8)) * exp (P_gamma * (T_ref r - 25)))"
proof -
  obtain r' p tt where s: "substep cfg h r = Inr (r', p, tt)"
    using substep_total [OF assms(1,2)] by blast
  then obtain rg where g: "governor cfg h r = Inr (rg, tt)" and ph: "physics cfg h rg = (r', p)"
    by (auto simp add: substep_Inr_iff)
  show ?thesis
    using s physics_power [OF ph] physics_keeps [OF ph] governor_keeps [OF g]
    by (simp add: Ptot_of_def Pdyn_of_def Pleak_of_def)
qed

theorem recorded_power_rounded_witness:
  "index_ok (resetSim_refs cfgM) \<and> batteryWh cfgM \<noteq> 0 \<and>
   (\<exists>r' p tt. substep cfgM (1 / 4) (resetSim_refs cfgM) = Inr (r', p, tt) \<and>
      sp_power p =
        toFixed 3 (ceffNF cfgM * V_ref r' * V_ref r' * f_ref r' * alpha cfgM
                   + P_Pleak0 * exp (P_kV * (V_ref r' - 0.8)) * exp (P_gamma * (25 - 25))))"
  using recorded_power_rounded [of "resetSim_refs cfgM" cfgM "1 / 4"]
  by (simp add: index_ok_def resetSim_refs_def cfgM_def cfg0_def length_P_pstates)

text \<open>
  The claim as stated, with the unrounded sum in the sample, fails on the first sub-step
  after a reset with manual override at 1.0 GHz and 0.8 V: the power is 1.3296 W and the
  sample holds 1.33.
\<close>

theorem recorded_power_counterexample:
  "sp_power (fst (snd (projr (substep cfgM (1 / 4) (resetSim_refs cfgM))))) = 1.33 \<and>
   Pdyn_of cfgM 1 0.8 + Pleak_of 0.8 25 = 1.3296 \<and>
   f_ref (fst (projr (substep cfgM (1 / 4) (resetSim_refs cfgM)))) = 1 \<and>
   V_ref (fst (projr (substep cfgM (1 / 4) (resetSim_refs cfgM)))) = 0.8 \<and>
   T_ref (resetSim_refs cfgM) = 25 \<and>
   sp_power (fst (snd (projr (substep cfgM (1 / 4) (resetSim_refs cfgM)))))
     \<noteq> Pdyn_of cfgM 1 0.8 + Pleak_of 0.8 25"
proof -
  have m: "manualOverride cfgM" "batteryWh cfgM \<noteq> 0" by (simp_all add: cfgM_def cfg0_def)
  have c: "clamp (freqGHz cfgM) P_fMin P_fMax = 1" "clamp (vdd cfgM) P_vMin P_vMax = 0.8"
    by (simp_all add: cfgM_def cfg0_def clamp_def P_fMin_def P_fMax_def P_vMin_def P_vMax_def)
  have T: "T_ref (resetSim_refs cfgM) = 25" by (simp add: resetSim_refs_def cfgM_def cfg0_def)
  have "sp_power (fst (snd (projr (substep cfgM (1 / 4) (resetSim_refs cfgM)))))
          = toFixed 3 (Ptot_of cfgM 1 0.8 25)"
    by (simp add: substep_manual [OF m] c physics_snd_power T)
  also have "\<dots> = 1.33" by (subst Ptot_cfgM) (simp add: toFixed_def)
  finally have p: "sp_power (fst (snd (projr (substep cfgM (1 / 4) (resetSim_refs cfgM))))) = 1.33" .
  have fV: "f_ref (fst (projr (substep cfgM (1 / 4) (resetSim_refs cfgM)))) = 1"
      "V_ref (fst (projr (substep cfgM (1 / 4) (resetSim_refs cfgM)))) = 0.8"
    by (simp_all add: substep_manual [OF m] c physics_fst_keeps)
  have q: "Pdyn_of cfgM 1 0.8 + Pleak_of 0.8 25 = 1.3296"
    using Ptot_cfgM by (simp only: Ptot_of_def)
  have "sp_power (fst (snd (projr (substep cfgM (1 / 4) (resetSim_refs cfgM)))))
     \<noteq> Pdyn_of cfgM 1 0.8 + Pleak_of 0.8 25"
    unfolding p q by simp
  with p q fV T show ?thesis by (intro conjI)
qed

text \<open>
  C5. In every sub-step the overheat accumulator grows by the sub-step size \<open>h\<close> when the
  temperature (after this sub-step's thermal update) exceeds the thermal limit plus
  5 \<degree>C, and otherwise drops by \<open>2 * h\<close>, clamped at 0. The handler records the end reason
  overheat in this sub-step exactly when the accumulator has reached
  \<open>max 1 overheatGrace\<close>, a threshold of at least one second whatever the configuration.
\<close>

theorem overheat_grace:
  assumes "index_ok r" and "batteryWh cfg \<noteq> 0" and "localEnd l = None"
  shows "\<exists>r' l'. loop_body cfg h (r, l) = Inr (r', l') \<and>
           overheatAccum_ref r' =
             (if T_ref r' > thermalLimit cfg + 5 then overheatAccum_ref r + h
              else max 0 (overheatAccum_ref r - 2 * h)) \<and>
           (localEnd l' = Some Overheat) = (overheatAccum_ref r' \<ge> max 1 (overheatGrace cfg)) \<and>
           1 \<le> max 1 (overheatGrace cfg)"
proof -
  obtain r' p tt where s: "substep cfg h r = Inr (r', p, tt)"
    using substep_total [OF assms(1,2)] by blast
  then obtain rg where g: "governor cfg h r = Inr (rg, tt)" and ph: "physics cfg h rg = (r', p)"
    by (auto simp add: substep_Inr_iff)
  let ?l' = "l\<lparr> localEnd := end_checks cfg r' (localEnd l),
                localThrottling := (tt \<or> T_ref r' \<ge> thermalLimit cfg),
                newPoints := newPoints l @ [p],
                remainingGI_set := Some (if remainingGI_ref r' \<le> 0 then 0 else remainingGI_ref r') \<rparr>"
  have lb: "loop_body cfg h (r, l) = Inr (r', ?l')" using s by (simp add: loop_body_Inr_iff)
  have acc: "overheatAccum_ref r' =
             (if T_ref r' > thermalLimit cfg + 5 then overheatAccum_ref r + h
              else max 0 (overheatAccum_ref r - 2 * h))"
    using physics_accum [OF ph] governor_keeps [OF g] by simp
  have sig: "(localEnd ?l' = Some Overheat) = (overheatAccum_ref r' \<ge> max 1 (overheatGrace cfg))"
    using assms(3) by (simp add: end_checks_eq)
  have one: "1 \<le> max 1 (overheatGrace cfg)" by simp
  show ?thesis using lb acc sig one by blast
qed

theorem overheat_grace_witness:
  "index_ok rH \<and> batteryWh cfgH \<noteq> 0 \<and> localEnd l0 = None \<and> overheatGrace cfgH < 1 \<and>
   (\<exists>r' l'. loop_body cfgH (1 / 4) (rH, l0) = Inr (r', l') \<and>
      thermalLimit cfgH + 5 < T_ref r' \<and> overheatAccum_ref rH = 3 / 4 \<and>
      overheatAccum_ref r' = 1 \<and> localEnd l' = Some Overheat)"
proof -
  have a: "index_ok rH" by (simp add: rH_def index_ok_def resetSim_refs_def length_P_pstates)
  have b: "batteryWh cfgH \<noteq> 0" by (simp add: cfgH_def cfg0_def)
  have c: "localEnd l0 = None" by (simp add: l0_def)
  have g: "overheatGrace cfgH < 1" by (simp add: cfgH_def)
  have acc0: "overheatAccum_ref rH = 3 / 4" by (simp add: rH_def)
  obtain r' l' where lb: "loop_body cfgH (1 / 4) (rH, l0) = Inr (r', l')"
    and acc: "overheatAccum_ref r' =
             (if T_ref r' > thermalLimit cfgH + 5 then overheatAccum_ref rH + 1 / 4
              else max 0 (overheatAccum_ref rH - 2 * (1 / 4)))"
    and sig: "(localEnd l' = Some Overheat) = (overheatAccum_ref r' \<ge> max 1 (overheatGrace cfgH))"
    using overheat_grace [OF a b c, of "1 / 4"] by blast
  from lb obtain p tt where s: "substep cfgH (1 / 4) rH = Inr (r', p, tt)"
    by (auto simp add: loop_body_Inr_iff)
  have f: "0 \<le> f_ref r'"
    using substep_f_nonneg [OF s] by (simp add: rH_def resetSim_refs_def P_pstates_def)
  have "ambient cfgH \<le> T_ref r'"
    using substep_T_floor [OF s _ _ _ f]
    by (simp add: cfgH_def cfg0_def alpha_def rH_def resetSim_refs_def)
  then have hot: "thermalLimit cfgH + 5 < T_ref r'" by (simp add: cfgH_def cfg0_def)
  have one: "overheatAccum_ref r' = 1" using acc hot acc0 by simp
  have "localEnd l' = Some Overheat" using sig one g by simp
  with a b c g lb hot acc0 one show ?thesis by blast
qed

text \<open>
  C1, as amended. The end reason of a sub-step is decided by the order of the three checks
  with the last check that fires winning: overheat over battery depletion, battery
  depletion over completion. The loop stops after the sub-step that set a reason, and a
  handler run that finds the stored reason no longer running changes nothing.
\<close>

theorem end_reason_last_check_wins:
  assumes "index_ok r" and "batteryWh cfg \<noteq> 0" and "localEnd l = None" and "0 < vtime"
  shows "\<exists>r' l'. loop_body cfg (min P_dt vtime) (r, l) = Inr (r', l') \<and>
           localEnd l' =
             (if overheatAccum_ref r' \<ge> max 1 (overheatGrace cfg) then Some Overheat
              else if EWh_ref r' \<ge> batteryWh cfg then Some Battery
              else if remainingGI_ref r' \<le> 0 then Some Completed
              else None) \<and>
           (localEnd l' \<noteq> None \<longrightarrow> advance cfg Running vtime (r, l) = Inr (r', l')) \<and>
           (endReason s \<noteq> Running \<longrightarrow> tick cfg (r', s) = Inr (r', s))"
proof -
  obtain r' l' where lb: "loop_body cfg (min P_dt vtime) (r, l) = Inr (r', l')"
    and e: "localEnd l' = end_checks cfg r' (localEnd l)"
    using loop_body_total [OF assms(1,2)] by blast
  have e': "localEnd l' =
             (if overheatAccum_ref r' \<ge> max 1 (overheatGrace cfg) then Some Overheat
              else if EWh_ref r' \<ge> batteryWh cfg then Some Battery
              else if remainingGI_ref r' \<le> 0 then Some Completed
              else None)"
    using e assms(3) by (simp add: end_checks_eq)
  then have nr: "localEnd l' \<noteq> Some Running" by (simp split: if_splits)
  have "localEnd l' \<noteq> None \<longrightarrow> advance cfg Running vtime (r, l) = Inr (r', l')"
    using advance_stops [OF lb assms(4,3) _ nr] by blast
  moreover have "endReason s \<noteq> Running \<longrightarrow> tick cfg (r', s) = Inr (r', s)"
    using tick_frozen by blast
  ultimately show ?thesis using lb e' by blast
qed

theorem end_reason_last_check_wins_witness:
  "index_ok (resetSim_refs cfgB) \<and> batteryWh cfgB \<noteq> 0 \<and> localEnd l0 = None \<and> (0::real) < 5 \<and>
   endReason sB \<noteq> Running \<and>
   (\<exists>r' l'. loop_body cfgB (min P_dt 5) (resetSim_refs cfgB, l0) = Inr (r', l') \<and>
      localEnd l' = Some Battery \<and> remainingGI_ref r' \<le> 0 \<and>
      advance cfgB Running 5 (resetSim_refs cfgB, l0) = Inr (r', l') \<and>
      tick cfgB (r', sB) = Inr (r', sB))"
proof -
  have a: "index_ok (resetSim_refs cfgB)"
    by (simp add: index_ok_def resetSim_refs_def length_P_pstates)
  have c: "localEnd l0 = None" by (simp add: l0_def)
  have d: "(0::real) < 5" by simp
  have e: "endReason sB \<noteq> Running" by (simp add: sB_def)
  obtain r' l' where lb: "loop_body cfgB (min P_dt 5) (resetSim_refs cfgB, l0) = Inr (r', l')"
    and rest: "localEnd l' \<noteq> None \<longrightarrow> advance cfgB Running 5 (resetSim_refs cfgB, l0) = Inr (r', l')"
      "endReason sB \<noteq> Running \<longrightarrow> tick cfgB (r', sB) = Inr (r', sB)"
    using end_reason_last_check_wins [OF a cfgB_manual(2) c d, of sB] by blast
  have pr: "(r', l') = rlB" using lb loop_body_cfgB(1) by (simp add: P_dt_def)
  have same: "r' = fst rlB" "l' = snd rlB"
    using arg_cong [OF pr, of fst] arg_cong [OF pr, of snd] by simp_all
  have le: "localEnd l' = Some Battery" unfolding same by (rule loop_body_cfgB(3))
  have "remainingGI_ref r' \<le> 0"
    unfolding same loop_body_cfgB(2) physics_cfgB(1) by simp
  with a cfgB_manual(2) c d e lb le rest show ?thesis by auto
qed

text \<open>
  The claim as stated gives completion precedence. With \<open>cfgB\<close> the first sub-step after
  a reset finishes the workload and drains the battery at once, and the reason recorded
  and then committed by the handler is battery, not completed.
\<close>

theorem end_reason_counterexample:
  "loop_body cfgB (1 / 4) (resetSim_refs cfgB, l0) = Inr rlB \<and>
   remainingGI_ref (fst rlB) \<le> 0 \<and> batteryWh cfgB \<le> EWh_ref (fst rlB) \<and>
   localEnd (snd rlB) = Some Battery \<and> localEnd (snd rlB) \<noteq> Some Completed \<and>
   endReason (snd (projr (tick cfgB (resetSim cfgB)))) = Battery"
proof -
  have "batteryWh cfgB \<le> EWh_ref (fst rlB)"
    unfolding loop_body_cfgB(2) physics_cfgB(2) by (simp add: cfgB_def)
  moreover have "remainingGI_ref (fst rlB) \<le> 0"
    unfolding loop_body_cfgB(2) physics_cfgB(1) by simp
  ultimately show ?thesis
    using loop_body_cfgB(1,3) tick_cfgB(3) by simp
qed

text \<open>
  C4. Take any run of sub-steps without a reset, the time of an index change being the
  simulated time \<open>t_ref\<close> at the end of the sub-step that made it. If the index changes
  in one sub-step, then a change in any later sub-step comes no earlier than
  \<open>slewStepSec\<close> after it. No sub-step changes the index while the cooldown, run down by
  this sub-step's size, is still positive, whatever the desired index; and a change
  happens only in automatic mode, moves the index by exactly one table entry, loads that
  entry's operating point and resets the cooldown to the slew window.
\<close>

theorem slew_window:
  assumes "substeps [(c1, h1)] r0 = Inr r1" and "pIndex_ref r1 \<noteq> pIndex_ref r0"
    and "substeps xs r1 = Inr r2" and "\<forall>x\<in>set xs. 0 \<le> snd x"
    and "substeps [(c2, h2)] r2 = Inr r3" and "0 \<le> h2"
  shows "(pIndex_ref r3 \<noteq> pIndex_ref r2 \<longrightarrow> t_ref r1 + P_slewStepSec \<le> t_ref r3) \<and>
         (0 < cooldown_tick (slewCooldown_ref r2) h2 \<longrightarrow> pIndex_ref r3 = pIndex_ref r2) \<and>
         \<not> manualOverride c1 \<and> cooldown_tick (slewCooldown_ref r0) h1 = 0 \<and>
         \<bar>pIndex_ref r1 - pIndex_ref r0\<bar> = 1 \<and> slewCooldown_ref r1 = P_slewStepSec \<and>
         pstate_at (pIndex_ref r1) = Some (f_ref r1, V_ref r1)"
proof -
  from assms(1) obtain p1 tt1 where s1: "substep c1 h1 r0 = Inr (r1, p1, tt1)"
    unfolding substeps_single by blast
  from assms(5) obtain p3 tt3 where s3: "substep c2 h2 r2 = Inr (r3, p3, tt3)"
    unfolding substeps_single by blast
  from s1 obtain rg1 where g1: "governor c1 h1 r0 = Inr (rg1, tt1)"
    and k1: "pIndex_ref r1 = pIndex_ref rg1" "slewCooldown_ref r1 = slewCooldown_ref rg1"
      "f_ref r1 = f_ref rg1" "V_ref r1 = V_ref rg1"
    by (rule substep_parts)
  have ch: "\<not> manualOverride c1 \<and> cooldown_tick (slewCooldown_ref r0) h1 = 0 \<and>
         \<bar>pIndex_ref r1 - pIndex_ref r0\<bar> = 1 \<and> slewCooldown_ref r1 = P_slewStepSec \<and>
         pstate_at (pIndex_ref r1) = Some (f_ref r1, V_ref r1)"
    using governor_change [OF g1] assms(2) k1 by simp
  then have "slew_inv (t_ref r1) r1" by (simp add: slew_inv_def)
  then have "slew_inv (t_ref r1) r2" using slew_inv_substeps [OF assms(3,4)] by simp
  then have a: "pIndex_ref r3 \<noteq> pIndex_ref r2 \<longrightarrow> t_ref r1 + P_slewStepSec \<le> t_ref r3"
    using slew_inv_substep [OF s3 assms(6)] by simp
  from s3 obtain rg3 where g3: "governor c2 h2 r2 = Inr (rg3, tt3)"
    and k3: "pIndex_ref r3 = pIndex_ref rg3"
    by (rule substep_parts)
  have b: "0 < cooldown_tick (slewCooldown_ref r2) h2 \<longrightarrow> pIndex_ref r3 = pIndex_ref r2"
  proof (intro impI, rule ccontr)
    assume pos: "0 < cooldown_tick (slewCooldown_ref r2) h2"
      and ne: "pIndex_ref r3 \<noteq> pIndex_ref r2"
    from ne have "pIndex_ref rg3 \<noteq> pIndex_ref r2" using k3 by simp
    from governor_change [OF g3 this] pos show False by simp
  qed
  show ?thesis using a b ch by simp
qed

theorem slew_window_witness:
  "substeps [(cfgT, 1 / 4)] (resetSim_refs cfgT) = Inr rW1 \<and>
   pIndex_ref rW1 \<noteq> pIndex_ref (resetSim_refs cfgT) \<and>
   substeps [(cfgT, 1 / 4)] rW1 = Inr rW2 \<and> (0::real) \<le> 1 / 4 \<and>
   substeps [(cfgT, 1 / 4)] rW2 = Inr rW3 \<and>
   pIndex_ref rW3 \<noteq> pIndex_ref rW2 \<and> t_ref rW1 + P_slewStepSec \<le> t_ref rW3 \<and>
   0 < cooldown_tick (slewCooldown_ref rW1) (1 / 4) \<and>
   fst (desired_index cfgT rW1) \<noteq> pIndex_ref rW1 \<and> pIndex_ref rW2 = pIndex_ref rW1 \<and>
   \<not> manualOverride cfgT \<and> \<bar>pIndex_ref rW1 - pIndex_ref (resetSim_refs cfgT)\<bar> = 1 \<and>
   slewCooldown_ref rW1 = P_slewStepSec \<and> t_ref rW1 = 1 / 4 \<and> t_ref rW3 = 3 / 4"
proof -
  have ne1: "pIndex_ref rW1 \<noteq> pIndex_ref (resetSim_refs cfgT)"
    by (simp add: run_cfgT(4) resetSim_refs_def)
  have ne3: "pIndex_ref rW3 \<noteq> pIndex_ref rW2" by (simp add: run_cfgT(5,6))
  have pos: "0 < cooldown_tick (slewCooldown_ref rW1) (1 / 4)"
    by (simp add: run_cfgT(9) cooldown_tick_def)
  have des: "fst (desired_index cfgT rW1) \<noteq> pIndex_ref rW1" by (simp add: run_cfgT(4,10))
  have A: "t_ref rW1 + P_slewStepSec \<le> t_ref rW3 \<and> \<not> manualOverride cfgT \<and>
      \<bar>pIndex_ref rW1 - pIndex_ref (resetSim_refs cfgT)\<bar> = 1 \<and> slewCooldown_ref rW1 = P_slewStepSec"
    using slew_window [OF run_cfgT(1) ne1 run_cfgT(2) _ run_cfgT(3)] ne3 by simp
  have B: "pIndex_ref rW2 = pIndex_ref rW1"
    using slew_window [OF run_cfgT(1) ne1 _ _ run_cfgT(2), of "[]"] pos by simp
  show ?thesis
    using run_cfgT(1,2,3,7,8) ne1 ne3 pos des A B by simp
qed

text \<open>
  C9, as amended. With the temperature at exactly the thermal limit, an automatic
  sub-step sets the throttling flag and its governor decision is thermally triggered with
  a desired index of at least \<open>min (current + 1) (last index)\<close>: at least one entry
  lower in performance (one index higher) than the current one, unless the current index
  is already the last entry of the table. Below the last entry, and with the cooldown run
  out, the index moves one entry down in performance in this sub-step.
\<close>

theorem thermal_limit_throttles:
  assumes "index_ok r" and "batteryWh cfg \<noteq> 0" and "\<not> manualOverride cfg"
    and "T_ref r = thermalLimit cfg"
  shows "snd (desired_index cfg r) \<and>
         min (pIndex_ref r + 1) (int (length P_pstates) - 1) \<le> fst (desired_index cfg r) \<and>
         (pIndex_ref r < int (length P_pstates) - 1 \<longrightarrow>
            pIndex_ref r + 1 \<le> fst (desired_index cfg r)) \<and>
         (\<exists>r' l'. loop_body cfg h (r, l) = Inr (r', l') \<and> localThrottling l' \<and>
            (cooldown_tick (slewCooldown_ref r) h = 0 \<and> pIndex_ref r < int (length P_pstates) - 1
               \<longrightarrow> pIndex_ref r' = pIndex_ref r + 1))"
proof -
  have d: "snd (desired_index cfg r)"
    "min (pIndex_ref r + 1) (int (length P_pstates) - 1) \<le> fst (desired_index cfg r)"
    using desired_index_thermal_ge [of cfg r] assms(4) by simp_all
  obtain r' p where s: "substep cfg h r = Inr (r', p, snd (desired_index cfg r))"
    and ch: "cooldown_tick (slewCooldown_ref r) h = 0 \<and> fst (desired_index cfg r) \<noteq> pIndex_ref r
       \<longrightarrow> pIndex_ref r' =
                   (if fst (desired_index cfg r) < pIndex_ref r then pIndex_ref r - 1
                    else pIndex_ref r + 1)"
    using substep_auto [OF assms(3,2,1), of h] by (auto split: if_splits)
  let ?l' = "l\<lparr> localEnd := end_checks cfg r' (localEnd l),
                localThrottling := (snd (desired_index cfg r) \<or> T_ref r' \<ge> thermalLimit cfg),
                newPoints := newPoints l @ [p],
                remainingGI_set := Some (if remainingGI_ref r' \<le> 0 then 0 else remainingGI_ref r') \<rparr>"
  have lb: "loop_body cfg h (r, l) = Inr (r', ?l')" using s by (simp add: loop_body_Inr_iff)
  have th: "localThrottling ?l'" using d(1) by simp
  have mv: "cooldown_tick (slewCooldown_ref r) h = 0 \<and> pIndex_ref r < int (length P_pstates) - 1
               \<longrightarrow> pIndex_ref r' = pIndex_ref r + 1"
    using ch d(2) by (auto simp add: length_P_pstates)
  have "pIndex_ref r < int (length P_pstates) - 1 \<longrightarrow> pIndex_ref r + 1 \<le> fst (desired_index cfg r)"
    using d(2) by (auto simp add: length_P_pstates)
  with d lb th mv show ?thesis by blast
qed

theorem thermal_limit_throttles_witness:
  "index_ok r42 \<and> batteryWh cfg0 \<noteq> 0 \<and> \<not> manualOverride cfg0 \<and> T_ref r42 = thermalLimit cfg0 \<and>
   pIndex_ref r42 < int (length P_pstates) - 1 \<and> cooldown_tick (slewCooldown_ref r42) (1 / 4) = 0 \<and>
   snd (desired_index cfg0 r42) \<and> pIndex_ref r42 + 1 \<le> fst (desired_index cfg0 r42) \<and>
   (\<exists>r' l'. loop_body cfg0 (1 / 4) (r42, l0) = Inr (r', l') \<and> localThrottling l' \<and>
       pIndex_ref r' = pIndex_ref r42 + 1)"
proof -
  have a: "index_ok r42" by (simp add: index_ok_def r42_def resetSim_refs_def length_P_pstates)
  have b: "batteryWh cfg0 \<noteq> 0" and c: "\<not> manualOverride cfg0" by (simp_all add: cfg0_def)
  have d: "T_ref r42 = thermalLimit cfg0" by (simp add: r42_def cfg0_def)
  have e: "pIndex_ref r42 < int (length P_pstates) - 1"
    by (simp add: r42_def resetSim_refs_def length_P_pstates)
  have f: "cooldown_tick (slewCooldown_ref r42) (1 / 4) = 0"
    by (simp add: r42_def resetSim_refs_def cooldown_tick_def)
  show ?thesis
    using a b c d e f thermal_limit_throttles [OF a b c d, of "1 / 4" l0] by blast
qed

text \<open>
  The claim as stated, without the cap, fails at the last table entry: there the desired
  index equals the current one.
\<close>

theorem thermal_limit_counterexample:
  "index_ok r6 \<and> batteryWh cfg0 \<noteq> 0 \<and> \<not> manualOverride cfg0 \<and> T_ref r6 = thermalLimit cfg0 \<and>
   pstate_at (pIndex_ref r6) = Some (f_ref r6, V_ref r6) \<and>
   fst (desired_index cfg0 r6) = pIndex_ref r6 \<and>
   \<not> pIndex_ref r6 + 1 \<le> fst (desired_index cfg0 r6)"
proof -
  have "desired_index cfg0 r6 = (6, True)"
    by (simp add: desired_index_def Let_def r6_def cfg0_def length_P_pstates battPct_of_def)
  then show ?thesis
    by (simp add: r6_def cfg0_def index_ok_def length_P_pstates pstate_at_def P_pstates_def)
qed

end
